theory Spec2Isabelle
  imports Main "HOL-Library.Log_Nat" "HOL-Library.Sublist" "HOL-Library.AList"
begin

section \<open>Machine numbers\<close>

text \<open>
  Go's \<open>int\<close> and \<open>time.Duration\<close> are 64-bit signed integers. They are modelled as
  \<open>int\<close>; where the source multiplies, the two's-complement wrap-around is written out
  with \<open>wrap64\<close>.
\<close>

definition wrap64 :: "int \<Rightarrow> int" where
  "wrap64 x = (x + 2 ^ 63) mod 2 ^ 64 - 2 ^ 63"

definition Millisecond :: int where
  "Millisecond = 1000000"

definition Second :: int where
  "Second = 1000000000"

definition Minute :: int where
  "Minute = 60 * Second"

text \<open>
  A \<open>float64\<close> is either a finite value \<open>m * 2 ^ e\<close> (written \<open>Finite m e\<close>), a NaN or
  an infinity. Zero and negative zero are not told apart (no operation of the program
  depends on the sign of zero). Every finite binary64 value has this form; arithmetic
  rounds the exact result to the nearest value with a 53-bit significand, ties to even,
  and to a multiple of \<open>2 ^ -1074\<close> in the subnormal range.
\<close>

datatype float64 = Finite int int | NaN | PosInf | NegInf

definition round_half_even :: "int \<Rightarrow> nat \<Rightarrow> int" where
  "round_half_even m d =
     (let q = m div 2 ^ d; r = m mod 2 ^ d
      in if 2 * r > 2 ^ d \<or> (2 * r = 2 ^ d \<and> odd q) then q + 1 else q)"

definition float64_round :: "int \<Rightarrow> int \<Rightarrow> float64" where
  "float64_round m e =
     (let drop = max (bitlen \<bar>m\<bar> - 53) (- 1074 - e);
          m' = (if drop \<le> 0 then m else round_half_even m (nat drop));
          e' = (if drop \<le> 0 then e else e + drop)
      in if bitlen \<bar>m'\<bar> + e' > 1024 then (if m' < 0 then NegInf else PosInf)
         else Finite m' e')"

text \<open>The conversion \<open>float64(i)\<close> of an integer.\<close>

definition float64_of_int :: "int \<Rightarrow> float64" where
  "float64_of_int i = float64_round i 0"

text \<open>The product \<open>x * y\<close> of two \<open>float64\<close> values.\<close>

fun float64_mul :: "float64 \<Rightarrow> float64 \<Rightarrow> float64" where
  "float64_mul (Finite a e) (Finite b f) = float64_round (a * b) (e + f)"
| "float64_mul NaN _ = NaN"
| "float64_mul _ NaN = NaN"
| "float64_mul (Finite a e) PosInf = (if a = 0 then NaN else if a < 0 then NegInf else PosInf)"
| "float64_mul (Finite a e) NegInf = (if a = 0 then NaN else if a < 0 then PosInf else NegInf)"
| "float64_mul PosInf (Finite b f) = (if b = 0 then NaN else if b < 0 then NegInf else PosInf)"
| "float64_mul NegInf (Finite b f) = (if b = 0 then NaN else if b < 0 then PosInf else NegInf)"
| "float64_mul PosInf PosInf = PosInf"
| "float64_mul PosInf NegInf = NegInf"
| "float64_mul NegInf PosInf = NegInf"
| "float64_mul NegInf NegInf = PosInf"

text \<open>The comparisons \<open>x <= 0\<close> and \<open>x > 1\<close>; both are false on a NaN.\<close>

fun float64_le_zero :: "float64 \<Rightarrow> bool" where
  "float64_le_zero (Finite m e) = (m \<le> 0)"
| "float64_le_zero NaN = False"
| "float64_le_zero PosInf = False"
| "float64_le_zero NegInf = True"

fun float64_gt_one :: "float64 \<Rightarrow> bool" where
  "float64_gt_one (Finite m e) = (if 0 \<le> e then 1 < m * 2 ^ nat e else 2 ^ nat (- e) < m)"
| "float64_gt_one NaN = False"
| "float64_gt_one PosInf = True"
| "float64_gt_one NegInf = False"

text \<open>
  The conversion \<open>int(x)\<close> (and \<open>time.Duration(x)\<close>) truncates towards zero. When the
  truncated value is not an \<open>int64\<close> (or \<open>x\<close> is a NaN or an infinity) the Go
  specification leaves the result to the implementation; the model takes the value the
  amd64 instruction gives, \<open>- 2 ^ 63\<close>.
\<close>

definition int64_indefinite :: int where
  "int64_indefinite = - (2 ^ 63)"

fun int_of_float64 :: "float64 \<Rightarrow> int" where
  "int_of_float64 (Finite m e) =
     (let t = (if 0 \<le> e then m * 2 ^ nat e
               else if 0 \<le> m then m div 2 ^ nat (- e)
               else - ((- m) div 2 ^ nat (- e)))
      in if - (2 ^ 63) \<le> t \<and> t < 2 ^ 63 then t else int64_indefinite)"
| "int_of_float64 NaN = int64_indefinite"
| "int_of_float64 PosInf = int64_indefinite"
| "int_of_float64 NegInf = int64_indefinite"

text \<open>The literals \<open>0.2\<close>, \<open>0.1\<close> and \<open>0.4\<close> as \<open>float64\<close> values (nearest binary64).\<close>

definition ratio_0_2 :: float64 where
  "ratio_0_2 = Finite 3602879701896397 (- 54)"

definition ratio_0_1 :: float64 where
  "ratio_0_1 = Finite 3602879701896397 (- 55)"

definition ratio_0_4 :: float64 where
  "ratio_0_4 = Finite 3602879701896397 (- 53)"

text \<open>The expression \<open>time.Duration(float64(totalTimeout) * ratio)\<close>.\<close>

definition scale_duration :: "int \<Rightarrow> float64 \<Rightarrow> int" where
  "scale_duration totalTimeout ratio =
     int_of_float64 (float64_mul (float64_of_int totalTimeout) ratio)"

section \<open>The configuration registry\<close>

record GatherConfig =
  MaxIdleConns :: int
  MaxIdleConnsPerHost :: int
  IdleConnTimeout :: int
  TLSInsecureSkipVerify :: bool
  DialTimeout :: int
  TLSHandshakeTimeout :: int
  ExpectContinueTimeout :: int
  ResponseHeaderTimeout :: int
  DisableCompression :: bool
  ForceAttemptHTTP2 :: bool
  TCPLinger :: int
  KeepAlive :: int

text \<open>
  The fields of \<open>http.Transport\<close> that \<open>newTransport\<close> sets. The dialer's
  timeout, keep-alive and linger are captured by the \<open>DialContext\<close> closure.
\<close>

text \<open>
  A parsed \<open>*url.URL\<close>: the string it was parsed from and the user information set on
  it afterwards. The proxy function of a transport is absent, parses a string at each
  request, or is \<open>http.ProxyURL\<close> of a fixed URL (of nil: no proxy is used).
\<close>

record url_URL =
  url_raw :: string
  url_User :: "(string \<times> string) option"

datatype proxy_setting = NoProxy | ProxyFromString string | ProxyURL "url_URL option"

record Transport =
  tr_InsecureSkipVerify :: bool
  tr_MaxIdleConns :: int
  tr_MaxIdleConnsPerHost :: int
  tr_IdleConnTimeout :: int
  tr_TLSHandshakeTimeout :: int
  tr_ExpectContinueTimeout :: int
  tr_ResponseHeaderTimeout :: int
  tr_DisableCompression :: bool
  tr_ForceAttemptHTTP2 :: bool
  tr_DialTimeout :: int
  tr_KeepAlive :: int
  tr_Linger :: int
  tr_Proxy :: proxy_setting

text \<open>
  The package-level variables \<open>globalConfig\<close> and \<open>transportNoProxy\<close>. A
  \<open>*http.Transport\<close> is an address into \<open>transports\<close>, the list of all transports
  allocated so far, so that two pointers to the same transport are the same address.
\<close>

record registry =
  globalConfig :: "GatherConfig option"
  transportNoProxy :: "nat option"
  transports :: "Transport list"

text \<open>The messages \<open>SetGatherConfig\<close> collects, each with the offending value.\<close>

datatype violation =
    MaxIdleConns_must_be_positive int
  | MaxIdleConnsPerHost_must_be_positive int
  | IdleConnTimeout_must_be_positive int
  | DialTimeout_must_not_be_negative int
  | TLSHandshakeTimeout_must_not_be_negative int
  | ExpectContinueTimeout_must_not_be_negative int
  | ResponseHeaderTimeout_must_not_be_negative int
  | TCPLinger_must_not_be_negative int
  | KeepAlive_must_be_positive int

datatype panic =
    Config_is_nil
  | Config_invalid "violation list"
  | TotalTimeout_not_positive
  | Nil_dereference
  | Index_out_of_range
  | Division_by_zero
  | GatherStruct_not_initialised
  | Client_not_initialised
  | Request_is_nil
  | Negative_channel_size

text \<open>The slice \<open>errMsgs\<close> after the nine checks, in the order of the appends.\<close>

definition errMsgs :: "GatherConfig \<Rightarrow> violation list" where
  "errMsgs cfg =
     (if MaxIdleConns cfg \<le> 0 then [MaxIdleConns_must_be_positive (MaxIdleConns cfg)] else []) @
     (if MaxIdleConnsPerHost cfg \<le> 0
      then [MaxIdleConnsPerHost_must_be_positive (MaxIdleConnsPerHost cfg)] else []) @
     (if IdleConnTimeout cfg \<le> 0
      then [IdleConnTimeout_must_be_positive (IdleConnTimeout cfg)] else []) @
     (if DialTimeout cfg < 0 then [DialTimeout_must_not_be_negative (DialTimeout cfg)] else []) @
     (if TLSHandshakeTimeout cfg < 0
      then [TLSHandshakeTimeout_must_not_be_negative (TLSHandshakeTimeout cfg)] else []) @
     (if ExpectContinueTimeout cfg < 0
      then [ExpectContinueTimeout_must_not_be_negative (ExpectContinueTimeout cfg)] else []) @
     (if ResponseHeaderTimeout cfg < 0
      then [ResponseHeaderTimeout_must_not_be_negative (ResponseHeaderTimeout cfg)] else []) @
     (if TCPLinger cfg < 0 then [TCPLinger_must_not_be_negative (TCPLinger cfg)] else []) @
     (if KeepAlive cfg \<le> 0 then [KeepAlive_must_be_positive (KeepAlive cfg)] else [])"

text \<open>
  \<open>SetGatherConfig\<close>: the result is the panic value, if the call panics, and the
  registry the call leaves behind.
\<close>

definition SetGatherConfig :: "GatherConfig option \<Rightarrow> registry \<Rightarrow> panic option \<times> registry" where
  "SetGatherConfig cfg reg =
     (case cfg of
        None \<Rightarrow> (Some Config_is_nil, reg)
      | Some c \<Rightarrow>
          if length (errMsgs c) > 0 then (Some (Config_invalid (errMsgs c)), reg)
          else (None, reg\<lparr>transportNoProxy := None, globalConfig := Some c\<rparr>))"

definition SetGatherConfigByClientTimeout ::
    "int \<Rightarrow> bool \<Rightarrow> bool \<Rightarrow> registry \<Rightarrow> panic option \<times> registry" where
  "SetGatherConfigByClientTimeout totalTimeout isSlowConn tlsInsecure reg =
     (if totalTimeout \<le> 0 then (Some TotalTimeout_not_positive, reg)
      else
        let minDialTimeout = 1 * Second;
            minTLSTimeout = 1 * Second;
            minExpectTimeout = 500 * Millisecond;
            minResponseHeaderTimeout = 2 * Second;
            dialRatio = (if isSlowConn then ratio_0_2 else ratio_0_2);
            tlsRatio = (if isSlowConn then ratio_0_2 else ratio_0_2);
            expectRatio = (if isSlowConn then ratio_0_1 else ratio_0_1);
            responseHeaderRatio = (if isSlowConn then ratio_0_4 else ratio_0_4);
            idleConnTimeout = (if isSlowConn then 90 * Second else 30 * Second);
            keepAlive = (if isSlowConn then 60 * Second else 30 * Second);
            disableCompression = (if isSlowConn then False else True);
            forceHTTP2 = (if isSlowConn then False else True);
            tcpLinger = (if isSlowConn then 1 else 0);
            dialTimeout0 = scale_duration totalTimeout dialRatio;
            dialTimeout = (if dialTimeout0 < minDialTimeout then minDialTimeout else dialTimeout0);
            tlsHandshakeTimeout0 = scale_duration totalTimeout tlsRatio;
            tlsHandshakeTimeout =
              (if tlsHandshakeTimeout0 < minTLSTimeout then minTLSTimeout else tlsHandshakeTimeout0);
            expectContinueTimeout0 = scale_duration totalTimeout expectRatio;
            expectContinueTimeout =
              (if expectContinueTimeout0 < minExpectTimeout then minExpectTimeout
               else expectContinueTimeout0);
            responseHeaderTimeout0 = scale_duration totalTimeout responseHeaderRatio;
            responseHeaderTimeout1 =
              (if responseHeaderTimeout0 < minResponseHeaderTimeout then minResponseHeaderTimeout
               else responseHeaderTimeout0);
            responseHeaderTimeout = (if isSlowConn then 0 else responseHeaderTimeout1);
            maxIdleConns = 100;
            maxIdleConnsPerHost = 100;
            cfg = \<lparr>MaxIdleConns = maxIdleConns,
                   MaxIdleConnsPerHost = maxIdleConnsPerHost,
                   IdleConnTimeout = idleConnTimeout,
                   TLSInsecureSkipVerify = tlsInsecure,
                   DialTimeout = dialTimeout,
                   TLSHandshakeTimeout = tlsHandshakeTimeout,
                   ExpectContinueTimeout = expectContinueTimeout,
                   ResponseHeaderTimeout = responseHeaderTimeout,
                   DisableCompression = disableCompression,
                   ForceAttemptHTTP2 = forceHTTP2,
                   TCPLinger = tcpLinger,
                   KeepAlive = keepAlive\<rparr>
        in SetGatherConfig (Some cfg) reg)"

definition UseSlowConnConfig :: "registry \<Rightarrow> panic option \<times> registry" where
  "UseSlowConnConfig reg = SetGatherConfigByClientTimeout (10 * Minute) True True reg"

definition UseFastConnConfig :: "registry \<Rightarrow> panic option \<times> registry" where
  "UseFastConnConfig reg = SetGatherConfigByClientTimeout (30 * Second) False True reg"

text \<open>
  A configuration that \<open>SetGatherConfig\<close> must reject: a negative phase timeout, an
  idle-connection timeout or keep-alive that is not positive, a connection-pool size that
  is not positive, or a negative TCP linger.
\<close>

definition invalid_config :: "GatherConfig \<Rightarrow> bool" where
  "invalid_config c \<longleftrightarrow>
     DialTimeout c < 0 \<or> TLSHandshakeTimeout c < 0 \<or> ExpectContinueTimeout c < 0 \<or>
     ResponseHeaderTimeout c < 0 \<or> IdleConnTimeout c \<le> 0 \<or> KeepAlive c \<le> 0 \<or>
     MaxIdleConns c \<le> 0 \<or> MaxIdleConnsPerHost c \<le> 0 \<or> TCPLinger c < 0"

text \<open>The registry before the package's \<open>init\<close> has run.\<close>

definition registry0 :: registry where
  "registry0 = \<lparr>globalConfig = None, transportNoProxy = None, transports = []\<rparr>"

text \<open>A configuration with a negative dial timeout and a zero idle-connection timeout.\<close>

definition bad_config :: GatherConfig where
  "bad_config = \<lparr>MaxIdleConns = 100, MaxIdleConnsPerHost = 100, IdleConnTimeout = 0,
     TLSInsecureSkipVerify = True, DialTimeout = - 1, TLSHandshakeTimeout = 0,
     ExpectContinueTimeout = 0, ResponseHeaderTimeout = 0, DisableCompression = False,
     ForceAttemptHTTP2 = False, TCPLinger = 0, KeepAlive = 30 * Second\<rparr>"

section \<open>Errors and the gzip reader\<close>

text \<open>
  A \<open>[]byte\<close> and a Go \<open>string\<close> are both sequences of bytes, modelled as
  \<open>string\<close>; the conversion \<open>string(data)\<close> is the identity.

  The errors \<open>gzip.NewReader\<close> and \<open>io.ReadAll\<close> can return on an in-memory
  reader, with the text \<open>err.Error()\<close> gives.
\<close>

datatype gzip_error =
    io_EOF
  | io_ErrUnexpectedEOF
  | gzip_ErrHeader
  | gzip_ErrChecksum
  | flate_error string

fun Error :: "gzip_error \<Rightarrow> string" where
  "Error io_EOF = ''EOF''"
| "Error io_ErrUnexpectedEOF = ''unexpected EOF''"
| "Error gzip_ErrHeader = ''gzip: invalid header''"
| "Error gzip_ErrChecksum = ''gzip: invalid checksum''"
| "Error (flate_error msg) = msg"

text \<open>The places where the source wraps an error with \<open>fmt.Errorf("...: %w", err)\<close>.\<close>

datatype wrap_context =
    Gzip_decompress_failed
  | Read_gzip_data_failed
  | Set_multipart_boundary_failed
  | Build_multipart_body_failed
  | Close_multipart_writer_failed
  | Build_POST_request_failed
  | Execute_multipart_POST_failed
  | Parse_proxy_url_failed string

datatype go_error =
    Gzip_error gzip_error
  | errNoFreeClinetFind
  | http_ErrAbortHandler
  | Stdlib_error string
  | Wrapped wrap_context go_error

definition strings_Contains :: "string \<Rightarrow> string \<Rightarrow> bool" where
  "strings_Contains s substr = sublist substr s"

text \<open>
  The part of \<open>compress/gzip\<close> the program does not decide: what \<open>readHeader\<close>
  finds after the ten fixed header bytes, and what reading the stream to its end gives.
\<close>

record gzip_library =
  header_tail :: "string \<Rightarrow> gzip_error option"
  inflate :: "string \<Rightarrow> gzip_error + string"

text \<open>
  \<open>gzip.NewReader(bytes.NewReader(data))\<close>: \<open>readHeader\<close> reads ten bytes with
  \<open>io.ReadFull\<close>, which fails with \<open>io.EOF\<close> on no input and with
  \<open>io.ErrUnexpectedEOF\<close> on fewer than ten bytes; then it compares the two
  identification bytes and the compression method and fails with \<open>gzip.ErrHeader\<close>.
\<close>

definition gzip_NewReader :: "gzip_library \<Rightarrow> string \<Rightarrow> gzip_error + string" where
  "gzip_NewReader lib data =
     (if length data < 10 then Inl (if data = [] then io_EOF else io_ErrUnexpectedEOF)
      else if data ! 0 \<noteq> CHR 0x1F \<or> data ! 1 \<noteq> CHR 0x8B \<or> data ! 2 \<noteq> CHR 0x08
      then Inl gzip_ErrHeader
      else case header_tail lib data of Some err \<Rightarrow> Inl err | None \<Rightarrow> Inr data)"

definition io_ReadAll :: "gzip_library \<Rightarrow> string \<Rightarrow> gzip_error + string" where
  "io_ReadAll lib reader = inflate lib reader"

text \<open>\<open>Ungzip\<close> of \<open>util.go\<close>, which looks at the two signature bytes itself.\<close>

definition Ungzip :: "gzip_library \<Rightarrow> string \<Rightarrow> string \<times> go_error option" where
  "Ungzip lib data =
     (if length data = 0 then ('''', None)
      else if length data < 2 \<or> data ! 0 \<noteq> CHR 0x1F \<or> data ! 1 \<noteq> CHR 0x8B then (data, None)
      else case gzip_NewReader lib data of
             Inl err \<Rightarrow> ('''', Some (Gzip_error err))
           | Inr reader \<Rightarrow>
               (case io_ReadAll lib reader of
                  Inl err \<Rightarrow> ('''', Some (Gzip_error err))
                | Inr uncompressedData \<Rightarrow> (uncompressedData, None)))"

text \<open>
  \<open>Ungzip\<close> of the second utility file (\<open>part_001\<close>), which lets \<open>gzip.NewReader\<close>
  decide and recognises input that is not gzip by the text of the error.
\<close>

definition Ungzip_part_001 :: "gzip_library \<Rightarrow> string \<Rightarrow> string \<times> go_error option" where
  "Ungzip_part_001 lib data =
     (if length data = 0 then ('''', None)
      else case gzip_NewReader lib data of
             Inl err \<Rightarrow>
               if strings_Contains (Error err) ''gzip: invalid header'' then (data, None)
               else ('''', Some (Wrapped Gzip_decompress_failed (Gzip_error err)))
           | Inr reader \<Rightarrow>
               (case io_ReadAll lib reader of
                  Inl err \<Rightarrow> ('''', Some (Wrapped Read_gzip_data_failed (Gzip_error err)))
                | Inr uncompressedData \<Rightarrow> (uncompressedData, None)))"

text \<open>The input carries the gzip signature: it starts with the bytes 0x1F 0x8B.\<close>

definition has_gzip_signature :: "string \<Rightarrow> bool" where
  "has_gzip_signature data \<longleftrightarrow> 2 \<le> length data \<and> data ! 0 = CHR 0x1F \<and> data ! 1 = CHR 0x8B"

section \<open>Client instances\<close>

text \<open>
  Modelled from the spec: the cookie jar (\<open>webCookieJar\<close>, \<open>newWebCookieJar\<close>) is not
  among the sources; the spec treats it as a collaborator that attaches and records
  cookies. Only the logging flag it is created with is kept.
\<close>

datatype webCookieJar = WebCookieJar bool

definition newWebCookieJar :: "bool \<Rightarrow> webCookieJar" where
  "newWebCookieJar isCookieLogOpen = WebCookieJar isCookieLogOpen"

text \<open>An \<open>http.Client\<close>: the address of its transport (if any), its jar and its timeout.\<close>

record http_Client =
  cl_Transport :: "nat option"
  cl_Jar :: "webCookieJar option"
  cl_Timeout :: int

text \<open>
  A \<open>GatherStruct\<close>. The maps \<open>Headers\<close> and \<open>safeHeaders\<close> are association lists
  with distinct keys: \<open>Load\<close> is \<open>map_of\<close>, \<open>Store\<close> is \<open>AList.update\<close>, and
  \<open>Range\<close> visits the entries in the order of the list (Go leaves the order open; no
  property below depends on it).
\<close>

record GatherStruct =
  Client :: "http_Client option"
  Headers :: "(string \<times> string) list"
  safeHeaders :: "(string \<times> string) list"
  J :: "webCookieJar option"

record http_Request =
  Method :: string
  URL :: string
  Header :: "(string \<times> string) list"
  Body :: "string option"

record http_Response =
  StatusCode :: int
  resp_Body :: "go_error + string"
  resp_URL :: string

record MultipartPostFile =
  FileName :: string
  ContentType :: string
  Content :: string

text \<open>
  What the standard library and the network decide: the canonical form of a header key,
  whether \<open>http.NewRequest\<close> accepts a method and a URL, the answer of
  \<open>Client.Do\<close>, the gzip reader, the encoding of form values, the multipart writer
  (the step that failed with its error, or the body and its content type),
  \<open>strings.ToLower\<close>, and what \<open>url.Parse\<close> finds wrong in a string that has no
  control character.
\<close>

record go_env =
  CanonicalMIMEHeaderKey :: "string \<Rightarrow> string"
  http_NewRequest :: "string \<Rightarrow> string \<Rightarrow> go_error option"
  client_Do :: "http_Request \<Rightarrow> go_error + http_Response"
  gzip :: gzip_library
  url_Values_Encode :: "(string \<times> string) list \<Rightarrow> string"
  multipart_Writer ::
    "string \<Rightarrow> (string \<times> string) list \<Rightarrow> (string \<times> MultipartPostFile) list \<Rightarrow>
       (wrap_context \<times> go_error) + (string \<times> string)"
  strings_ToLower :: "string \<Rightarrow> string"
  url_Parse_tail :: "string \<Rightarrow> go_error option"

text \<open>\<open>http.Header.Set\<close> on the request-scoped header set.\<close>

definition Header_Set ::
    "go_env \<Rightarrow> (string \<times> string) list \<Rightarrow> string \<Rightarrow> string \<Rightarrow> (string \<times> string) list" where
  "Header_Set env h key val = AList.update (CanonicalMIMEHeaderKey env key) val h"

text \<open>
  The methods of an instance take the receiver (nil is \<open>None\<close>) and return, next to
  their result, the receiver as the call leaves it. A result is a panic or the triple
  \<open>(html, redirectURL, err)\<close>.
\<close>

definition newHttpRequest ::
    "go_env \<Rightarrow> GatherStruct option \<Rightarrow> string \<Rightarrow> string \<Rightarrow> string \<Rightarrow> string \<Rightarrow> string option \<Rightarrow>
       (panic + go_error + http_Request) \<times> GatherStruct option" where
  "newHttpRequest env g method url refererURL cookies body =
     (case g of
        None \<Rightarrow> (Inl GatherStruct_not_initialised, g)
      | Some gs \<Rightarrow>
          if Client gs = None then (Inl Client_not_initialised, g)
          else
            case http_NewRequest env method url of
              Some err \<Rightarrow> (Inr (Inl err), g)
            | None \<Rightarrow>
                let requestHeaders0 =
                      fold (\<lambda>(key, val) h. if key \<noteq> '''' \<and> val \<noteq> '''' then Header_Set env h key val else h)
                        (safeHeaders gs) [];
                    requestHeaders1 =
                      (if refererURL \<noteq> '''' then Header_Set env requestHeaders0 ''Referer'' refererURL
                       else requestHeaders0);
                    requestHeaders =
                      (if cookies \<noteq> '''' then Header_Set env requestHeaders1 ''Cookie'' cookies
                       else requestHeaders1)
                in (Inr (Inr \<lparr>Method = method, URL = url, Header = requestHeaders, Body = body\<rparr>), g))"

definition request ::
    "go_env \<Rightarrow> GatherStruct option \<Rightarrow> http_Request option \<Rightarrow>
       panic + string \<times> string \<times> go_error option" where
  "request env g req =
     (case req of
        None \<Rightarrow> Inl Request_is_nil
      | Some r \<Rightarrow>
          if g = None \<or> Client (the g) = None then Inl Client_not_initialised
          else
            case client_Do env r of
              Inl err \<Rightarrow> Inr ('''', '''', Some err)
            | Inr resp \<Rightarrow>
                if StatusCode resp < 200 \<or> StatusCode resp \<ge> 300
                then Inr ('''', '''', Some http_ErrAbortHandler)
                else
                  case resp_Body resp of
                    Inl err \<Rightarrow> Inr ('''', '''', Some err)
                  | Inr respBody \<Rightarrow> Inr (fst (Ungzip (gzip env) respBody), resp_URL resp, None))"

text \<open>The common end of every exchange: build the request, then execute it.\<close>

definition build_and_request ::
    "go_env \<Rightarrow> GatherStruct option \<Rightarrow> string \<Rightarrow> string \<Rightarrow> string \<Rightarrow> string \<Rightarrow> string option \<Rightarrow>
       (panic + string \<times> string \<times> go_error option) \<times> GatherStruct option" where
  "build_and_request env g method url refererURL cookies body =
     (case newHttpRequest env g method url refererURL cookies body of
        (Inl p, g') \<Rightarrow> (Inl p, g')
      | (Inr (Inl err), g') \<Rightarrow> (Inr ('''', '''', Some err), g')
      | (Inr (Inr req), g') \<Rightarrow> (request env g' (Some req), g'))"

definition GetUtil ::
    "go_env \<Rightarrow> GatherStruct option \<Rightarrow> string \<Rightarrow> string \<Rightarrow> string \<Rightarrow>
       (panic + string \<times> string \<times> go_error option) \<times> GatherStruct option" where
  "GetUtil env g url refererURL cookies =
     (case g of
        None \<Rightarrow> (Inl Nil_dereference, g)
      | Some gs \<Rightarrow> build_and_request env g ''GET'' url refererURL cookies None)"

definition Get ::
    "go_env \<Rightarrow> GatherStruct option \<Rightarrow> string \<Rightarrow> string \<Rightarrow>
       (panic + string \<times> string \<times> go_error option) \<times> GatherStruct option" where
  "Get env g url refererURL = GetUtil env g url refererURL ''''"

text \<open>
  The POST variants store a \<open>Content-Type\<close> in \<open>safeHeaders\<close> before they build the
  request: the first four only when the key is absent, the multipart variant always.
\<close>

definition PostUtil ::
    "go_env \<Rightarrow> GatherStruct option \<Rightarrow> string \<Rightarrow> string \<Rightarrow> string \<Rightarrow> (string \<times> string) list \<Rightarrow>
       (panic + string \<times> string \<times> go_error option) \<times> GatherStruct option" where
  "PostUtil env g url refererURL cookies postMap =
     (case g of
        None \<Rightarrow> (Inl Nil_dereference, g)
      | Some gs \<Rightarrow>
          let postDataBytes = url_Values_Encode env postMap;
              gs' = (if map_of (safeHeaders gs) ''Content-Type'' = None
                     then gs\<lparr>safeHeaders := AList.update ''Content-Type''
                            ''application/x-www-form-urlencoded; charset=utf-8'' (safeHeaders gs)\<rparr>
                     else gs)
          in build_and_request env (Some gs') ''POST'' url refererURL cookies (Some postDataBytes))"

definition Post ::
    "go_env \<Rightarrow> GatherStruct option \<Rightarrow> string \<Rightarrow> string \<Rightarrow> (string \<times> string) list \<Rightarrow>
       (panic + string \<times> string \<times> go_error option) \<times> GatherStruct option" where
  "Post env g url refererURL postMap = PostUtil env g url refererURL '''' postMap"

definition PostBytes ::
    "go_env \<Rightarrow> GatherStruct option \<Rightarrow> string \<Rightarrow> string \<Rightarrow> string \<Rightarrow> string \<Rightarrow>
       (panic + string \<times> string \<times> go_error option) \<times> GatherStruct option" where
  "PostBytes env g url refererURL cookies postBytes =
     (case g of
        None \<Rightarrow> (Inl Nil_dereference, g)
      | Some gs \<Rightarrow>
          let gs' = (if map_of (safeHeaders gs) ''Content-Type'' = None
                     then gs\<lparr>safeHeaders := AList.update ''Content-Type''
                            ''application/octet-stream'' (safeHeaders gs)\<rparr>
                     else gs)
          in build_and_request env (Some gs') ''POST'' url refererURL cookies (Some postBytes))"

definition PostXMLUtil ::
    "go_env \<Rightarrow> GatherStruct option \<Rightarrow> string \<Rightarrow> string \<Rightarrow> string \<Rightarrow> string \<Rightarrow>
       (panic + string \<times> string \<times> go_error option) \<times> GatherStruct option" where
  "PostXMLUtil env g url refererURL cookies postXML =
     (case g of
        None \<Rightarrow> (Inl Nil_dereference, g)
      | Some gs \<Rightarrow>
          let gs' = (if map_of (safeHeaders gs) ''Content-Type'' = None
                     then gs\<lparr>safeHeaders := AList.update ''Content-Type''
                            ''application/xml; charset=utf-8'' (safeHeaders gs)\<rparr>
                     else gs)
          in build_and_request env (Some gs') ''POST'' url refererURL cookies (Some postXML))"

definition PostJsonUtil ::
    "go_env \<Rightarrow> GatherStruct option \<Rightarrow> string \<Rightarrow> string \<Rightarrow> string \<Rightarrow> string \<Rightarrow>
       (panic + string \<times> string \<times> go_error option) \<times> GatherStruct option" where
  "PostJsonUtil env g url refererURL cookies postJson =
     (case g of
        None \<Rightarrow> (Inl Nil_dereference, g)
      | Some gs \<Rightarrow>
          let gs' = (if map_of (safeHeaders gs) ''Content-Type'' = None
                     then gs\<lparr>safeHeaders := AList.update ''Content-Type''
                            ''application/json; charset=utf-8'' (safeHeaders gs)\<rparr>
                     else gs)
          in build_and_request env (Some gs') ''POST'' url refererURL cookies (Some postJson))"

definition PostMultipartFormDataUtil ::
    "go_env \<Rightarrow> GatherStruct option \<Rightarrow> string \<Rightarrow> string \<Rightarrow> string \<Rightarrow> string \<Rightarrow>
       (string \<times> string) list \<Rightarrow> (string \<times> MultipartPostFile) list \<Rightarrow>
       (panic + string \<times> string \<times> go_error option) \<times> GatherStruct option" where
  "PostMultipartFormDataUtil env g url refererURL cookies boundary postValueMap postFileMap =
     (case g of
        None \<Rightarrow> (Inl Nil_dereference, g)
      | Some gs \<Rightarrow>
          case multipart_Writer env boundary postValueMap postFileMap of
            Inl (ctx, err) \<Rightarrow> (Inr ('''', '''', Some (Wrapped ctx err)), g)
          | Inr (body, contentType) \<Rightarrow>
              let gs' = gs\<lparr>safeHeaders := AList.update ''Content-Type'' contentType (safeHeaders gs)\<rparr>
              in case newHttpRequest env (Some gs') ''POST'' url refererURL cookies (Some body) of
                   (Inl p, g') \<Rightarrow> (Inl p, g')
                 | (Inr (Inl err), g') \<Rightarrow>
                     (Inr ('''', '''', Some (Wrapped Build_POST_request_failed err)), g')
                 | (Inr (Inr req), g') \<Rightarrow>
                     (case request env g' (Some req) of
                        Inl p \<Rightarrow> (Inl p, g')
                      | Inr (html, redirectURL, Some err) \<Rightarrow>
                          (Inr ('''', '''', Some (Wrapped Execute_multipart_POST_failed err)), g')
                      | Inr (html, redirectURL, None) \<Rightarrow> (Inr (html, redirectURL, None), g')))"

text \<open>
  An instance with an empty header store and a client, and a world in which
  \<open>http.NewRequest\<close> accepts everything and every exchange fails to connect.
\<close>

definition bare_instance :: GatherStruct where
  "bare_instance = \<lparr>Client = Some \<lparr>cl_Transport = None, cl_Jar = None, cl_Timeout = 0\<rparr>,
     Headers = [], safeHeaders = [], J = None\<rparr>"

definition offline_env :: go_env where
  "offline_env = \<lparr>CanonicalMIMEHeaderKey = (\<lambda>k. k),
     http_NewRequest = (\<lambda>m u. None),
     client_Do = (\<lambda>r. Inl (Stdlib_error ''dial tcp: connection refused'')),
     gzip = \<lparr>header_tail = (\<lambda>d. None), inflate = (\<lambda>d. Inl gzip_ErrChecksum)\<rparr>,
     url_Values_Encode = (\<lambda>m. ''''),
     multipart_Writer = (\<lambda>b v f. Inr ('''', ''multipart/form-data; boundary=b'')),
     strings_ToLower = (\<lambda>s. s),
     url_Parse_tail = (\<lambda>s. None)\<rparr>"

section \<open>The transport factory of the configuration registry\<close>

definition newTransport :: "GatherConfig \<Rightarrow> proxy_setting \<Rightarrow> Transport" where
  "newTransport cfg proxy =
     \<lparr>tr_InsecureSkipVerify = TLSInsecureSkipVerify cfg,
      tr_MaxIdleConns = MaxIdleConns cfg,
      tr_MaxIdleConnsPerHost = MaxIdleConnsPerHost cfg,
      tr_IdleConnTimeout = IdleConnTimeout cfg,
      tr_TLSHandshakeTimeout = TLSHandshakeTimeout cfg,
      tr_ExpectContinueTimeout = ExpectContinueTimeout cfg,
      tr_ResponseHeaderTimeout = ResponseHeaderTimeout cfg,
      tr_DisableCompression = DisableCompression cfg,
      tr_ForceAttemptHTTP2 = ForceAttemptHTTP2 cfg,
      tr_DialTimeout = DialTimeout cfg,
      tr_KeepAlive = KeepAlive cfg,
      tr_Linger = TCPLinger cfg,
      tr_Proxy = proxy\<rparr>"

text \<open>A new transport gets the next free address.\<close>

definition alloc_transport :: "Transport \<Rightarrow> registry \<Rightarrow> nat \<times> registry" where
  "alloc_transport t reg = (length (transports reg), reg\<lparr>transports := transports reg @ [t]\<rparr>)"

text \<open>
  \<open>getHttpTransport\<close> of the registry (\<open>part_000\<close>): the transport without proxy is
  a singleton, a transport with a proxy is built at every call. \<open>newTransport\<close>
  dereferences the configuration, which panics while \<open>globalConfig\<close> is nil.
\<close>

definition getHttpTransport :: "string \<Rightarrow> registry \<Rightarrow> (panic + nat) \<times> registry" where
  "getHttpTransport proxyURL reg =
     (if proxyURL = '''' then
        (case transportNoProxy reg of
           Some t \<Rightarrow> (Inr t, reg)
         | None \<Rightarrow>
             (case globalConfig reg of
                None \<Rightarrow> (Inl Nil_dereference, reg)
              | Some cfg \<Rightarrow>
                  let (a, reg') = alloc_transport (newTransport cfg NoProxy) reg
                  in (Inr a, reg'\<lparr>transportNoProxy := Some a\<rparr>)))
      else
        (case globalConfig reg of
           None \<Rightarrow> (Inl Nil_dereference, reg)
         | Some cfg \<Rightarrow>
             let (a, reg') = alloc_transport (newTransport cfg (ProxyFromString proxyURL)) reg
             in (Inr a, reg')))"

text \<open>
  \<open>url.Parse\<close> cuts the fragment off and rejects what is left when it holds an ASCII
  control character (a byte below 0x20, or 0x7F); the rest of its checks is left to
  \<open>url_Parse_tail\<close>.
\<close>

definition stringContainsCTLByte :: "string \<Rightarrow> bool" where
  "stringContainsCTLByte s = list_ex (\<lambda>c. (of_char c :: nat) < 32 \<or> (of_char c :: nat) = 127) s"

definition url_Parse :: "go_env \<Rightarrow> string \<Rightarrow> go_error + url_URL" where
  "url_Parse env rawURL =
     (if stringContainsCTLByte (takeWhile (\<lambda>c. c \<noteq> CHR ''#'') rawURL)
      then Inl (Stdlib_error ''net/url: invalid control character in URL'')
      else case url_Parse_tail env rawURL of
             Some err \<Rightarrow> Inl err
           | None \<Rightarrow> Inr \<lparr>url_raw = rawURL, url_User = None\<rparr>)"

text \<open>
  \<open>getHttpTransportHasPass\<close> of the registry (\<open>part_000\<close>). The error of the parse is
  discarded; setting the user on the nil URL that a failed parse leaves is a nil
  dereference.
\<close>

definition getHttpTransportHasPass ::
    "go_env \<Rightarrow> string \<Rightarrow> string \<Rightarrow> string \<Rightarrow> registry \<Rightarrow> (panic + nat) \<times> registry" where
  "getHttpTransportHasPass env proxyUrl user pass reg =
     (let cfg = globalConfig reg;
          proxyUrl' = (if \<not> strings_Contains proxyUrl ''http'' then ''http://'' @ proxyUrl
                       else proxyUrl);
          urlProxy = (case url_Parse env proxyUrl' of Inl err \<Rightarrow> None | Inr u \<Rightarrow> Some u)
      in if user \<noteq> '''' \<and> pass \<noteq> '''' \<and> urlProxy = None then (Inl Nil_dereference, reg)
         else
           let urlProxy' =
                 (if user \<noteq> '''' \<and> pass \<noteq> ''''
                  then map_option (\<lambda>u. u\<lparr>url_User := Some (user, pass)\<rparr>) urlProxy
                  else urlProxy)
           in case cfg of
                None \<Rightarrow> (Inl Nil_dereference, reg)
              | Some c \<Rightarrow>
                  let (a, reg') = alloc_transport (newTransport c (ProxyURL urlProxy')) reg
                  in (Inr a, reg'))"

text \<open>
  The header set an instance of \<open>part_000\<close> starts with: a map with the single key
  \<open>User-Agent\<close> is replaced by a browser's header set. The two constructors have the
  same table of agents but for the entry of \<open>ie\<close> and \<open>ie9\<close>, the parameter \<open>ie\<close>.
\<close>

definition defaultHeaders :: "go_env \<Rightarrow> string \<Rightarrow> string \<Rightarrow> (string \<times> string) list" where
  "defaultHeaders env ie v =
     [(''Accept'', ''text/html,application/xhtml+xml,application/xml;q=0.9,image/webp,*/*;q=0.8''),
      (''Accept-Encoding'', ''gzip, deflate, sdch''),
      (''Accept-Language'', ''zh-CN,zh;q=0.8''),
      (''Connection'', ''keep-alive''),
      (''Upgrade-Insecure-Requests'', ''1''),
      (''User-Agent'',
        (let l = strings_ToLower env v in
         if l = ''baidu''
         then ''Mozilla/5.0 (compatible; Baiduspider/2.0;++http://www.baidu.com/search/spider.html)''
         else if l = ''google''
         then ''Mozilla/5.0 (compatible; Googlebot/2.1;+http://www.google.com/bot.html)''
         else if l = ''bing''
         then ''Mozilla/5.0 (compatible; bingbot/2.0;+http://www.bing.com/bingbot.htm)''
         else if l = ''chrome''
         then ''Mozilla/5.0 (Windows NT 6.1; Win64; x64) AppleWebKit/537.36 (KHTML, like Gecko) Chrome/56.0.2924.87 Safari/537.36''
         else if l = ''360''
         then ''Mozilla/5.0 (Windows NT 6.1; WOW64) AppleWebKit/537.36 (KHTML, like Gecko) Chrome/45.0.2454.101 Safari/537.36''
         else if l = ''ie'' \<or> l = ''ie9''
         then ie
         else if l = ''''
         then ''Mozilla/5.0 (Windows NT 6.1; Win64; x64) AppleWebKit/537.36 (KHTML, like Gecko) Chrome/56.0.2924.87 Safari/537.36''
         else v))]"

definition initial_Headers ::
    "go_env \<Rightarrow> string \<Rightarrow> (string \<times> string) list \<Rightarrow> (string \<times> string) list" where
  "initial_Headers env ie headers =
     (if length headers = 1 then
        (case map_of headers ''User-Agent'' of
           Some v \<Rightarrow> defaultHeaders env ie v
         | None \<Rightarrow> headers)
      else headers)"

text \<open>\<open>NewGatherUtil\<close> of \<open>part_000\<close>.\<close>

definition NewGatherUtil ::
    "go_env \<Rightarrow> (string \<times> string) list \<Rightarrow> string \<Rightarrow> int \<Rightarrow> bool \<Rightarrow> registry \<Rightarrow>
       (panic + GatherStruct) \<times> registry" where
  "NewGatherUtil env headers proxyURL timeOut isCookieLogOpen reg =
     (let hs = initial_Headers env
                 ''Mozilla/5.0 (compatible; MSIE 9.0; Windows NT 6.1; Win64; x64; Trident/5.0)''
                 headers;
          jar = newWebCookieJar isCookieLogOpen
      in case getHttpTransport proxyURL reg of
           (Inl p, reg') \<Rightarrow> (Inl p, reg')
         | (Inr t, reg') \<Rightarrow>
             (Inr \<lparr>Client = Some \<lparr>cl_Transport = Some t, cl_Jar = Some jar,
                                  cl_Timeout = wrap64 (timeOut * Second)\<rparr>,
                    Headers = hs, safeHeaders = hs, J = Some jar\<rparr>, reg'))"

text \<open>\<open>NewGatherUtilHasPass\<close> of \<open>part_000\<close>.\<close>

definition NewGatherUtilHasPass ::
    "go_env \<Rightarrow> (string \<times> string) list \<Rightarrow> string \<Rightarrow> string \<Rightarrow> string \<Rightarrow> int \<Rightarrow> bool \<Rightarrow> registry \<Rightarrow>
       (panic + GatherStruct) \<times> registry" where
  "NewGatherUtilHasPass env headers proxyURL user pass timeOut isCookieLogOpen reg =
     (let hs = initial_Headers env
                 ''Mozilla/5.0 (compatible; MSIE 9.0; Windows NT 6.1; Win64; x64) Trident/5.0)''
                 headers;
          jar = newWebCookieJar isCookieLogOpen
      in case getHttpTransportHasPass env proxyURL user pass reg of
           (Inl p, reg') \<Rightarrow> (Inl p, reg')
         | (Inr t, reg') \<Rightarrow>
             (Inr \<lparr>Client = Some \<lparr>cl_Transport = Some t, cl_Jar = Some jar,
                                  cl_Timeout = wrap64 (timeOut * Second)\<rparr>,
                    Headers = hs, safeHeaders = hs, J = Some jar\<rparr>, reg'))"

section \<open>The transport factory of new.go\<close>

text \<open>
  The package-level variables of \<open>new.go\<close>, the transports allocated so far, and the
  lines written with \<open>log.Printf\<close>.
\<close>

datatype log_line =
    Parse_proxy_url_failed_line string
  | Parse_auth_proxy_url_failed_line
  | Create_auth_proxy_transport_failed_use_basic_client

record globals =
  g_MaxIdleConns :: int
  g_MaxIdleConnsPerHostNoProxy :: float64
  g_MaxIdleConnsPerHostWithProxy :: float64
  g_TLSInsecureSkipVerify :: bool
  g_DialTimeout :: int
  g_IdleConnTimeout :: int
  g_TLSHandshakeTimeout :: int
  g_ExpectContinueTimeout :: int
  g_ResponseHeaderTimeout :: int
  g_transportNoProxy :: "nat option"
  g_transportProxyMap :: "string \<rightharpoonup> nat"
  g_transports :: "Transport list"
  g_log :: "log_line list"

text \<open>The variables as the package initialises them.\<close>

definition globals0 :: globals where
  "globals0 = \<lparr>g_MaxIdleConns = 100,
     g_MaxIdleConnsPerHostNoProxy = ratio_0_2,
     g_MaxIdleConnsPerHostWithProxy = ratio_0_1,
     g_TLSInsecureSkipVerify = True,
     g_DialTimeout = 10 * Second,
     g_IdleConnTimeout = 90 * Second,
     g_TLSHandshakeTimeout = 10 * Second,
     g_ExpectContinueTimeout = 1 * Second,
     g_ResponseHeaderTimeout = 15 * Second,
     g_transportNoProxy = None,
     g_transportProxyMap = Map.empty,
     g_transports = [],
     g_log = []\<rparr>"

definition newBaseTransport :: "globals \<Rightarrow> Transport" where
  "newBaseTransport st =
     \<lparr>tr_InsecureSkipVerify = g_TLSInsecureSkipVerify st,
      tr_MaxIdleConns = g_MaxIdleConns st,
      tr_MaxIdleConnsPerHost = 0,
      tr_IdleConnTimeout = g_IdleConnTimeout st,
      tr_TLSHandshakeTimeout = g_TLSHandshakeTimeout st,
      tr_ExpectContinueTimeout = g_ExpectContinueTimeout st,
      tr_ResponseHeaderTimeout = g_ResponseHeaderTimeout st,
      tr_DisableCompression = True,
      tr_ForceAttemptHTTP2 = True,
      tr_DialTimeout = g_DialTimeout st,
      tr_KeepAlive = 30 * Second,
      tr_Linger = 0,
      tr_Proxy = NoProxy\<rparr>"

definition g_alloc :: "Transport \<Rightarrow> globals \<Rightarrow> nat \<times> globals" where
  "g_alloc t st = (length (g_transports st), st\<lparr>g_transports := g_transports st @ [t]\<rparr>)"

text \<open>\<open>getHttpTransport\<close> of \<open>new.go\<close>, with its cache of one transport per proxy.\<close>

definition getHttpTransport_new_go :: "string \<Rightarrow> globals \<Rightarrow> nat \<times> globals" where
  "getHttpTransport_new_go proxyURL st =
     (if proxyURL = '''' then
        (case g_transportNoProxy st of
           Some t \<Rightarrow> (t, st)
         | None \<Rightarrow>
             let perHost = int_of_float64
                   (float64_mul (float64_of_int (g_MaxIdleConns st)) (g_MaxIdleConnsPerHostNoProxy st));
                 (a, st') = g_alloc ((newBaseTransport st)\<lparr>tr_MaxIdleConnsPerHost := max perHost 1\<rparr>) st
             in (a, st'\<lparr>g_transportNoProxy := Some a\<rparr>))
      else
        (case g_transportProxyMap st proxyURL of
           Some t \<Rightarrow> (t, st)
         | None \<Rightarrow>
             let perHost = int_of_float64
                   (float64_mul (float64_of_int (g_MaxIdleConns st)) (g_MaxIdleConnsPerHostWithProxy st));
                 (a, st') = g_alloc ((newBaseTransport st)\<lparr>tr_Proxy := ProxyFromString proxyURL,
                                       tr_MaxIdleConnsPerHost := max perHost 1\<rparr>) st
             in (a, st'\<lparr>g_transportProxyMap := (g_transportProxyMap st')(proxyURL \<mapsto> a)\<rparr>)))"

text \<open>A sequence of calls of the factory, one per key, in order.\<close>

fun getHttpTransport_calls :: "string list \<Rightarrow> globals \<Rightarrow> globals" where
  "getHttpTransport_calls [] st = st"
| "getHttpTransport_calls (k # ks) st = getHttpTransport_calls ks (snd (getHttpTransport_new_go k st))"

definition parseProxyURLWithAuth :: "go_env \<Rightarrow> string \<Rightarrow> string \<Rightarrow> string \<Rightarrow> go_error + url_URL" where
  "parseProxyURLWithAuth env proxyUrl user pass =
     (let proxyUrl' = (if \<not> strings_Contains proxyUrl ''http'' then ''http://'' @ proxyUrl
                       else proxyUrl)
      in case url_Parse env proxyUrl' of
           Inl err \<Rightarrow> Inl (Wrapped (Parse_proxy_url_failed proxyUrl') err)
         | Inr urlProxy \<Rightarrow>
             Inr (if user \<noteq> '''' \<and> pass \<noteq> '''' then urlProxy\<lparr>url_User := Some (user, pass)\<rparr>
                  else urlProxy))"

definition newBaseTransportWithAuth :: "globals \<Rightarrow> url_URL \<Rightarrow> Transport" where
  "newBaseTransportWithAuth st proxyURL =
     \<lparr>tr_InsecureSkipVerify = g_TLSInsecureSkipVerify st,
      tr_MaxIdleConns = g_MaxIdleConns st,
      tr_MaxIdleConnsPerHost = g_MaxIdleConns st,
      tr_IdleConnTimeout = g_IdleConnTimeout st,
      tr_TLSHandshakeTimeout = g_TLSHandshakeTimeout st,
      tr_ExpectContinueTimeout = g_ExpectContinueTimeout st,
      tr_ResponseHeaderTimeout = 0,
      tr_DisableCompression = True,
      tr_ForceAttemptHTTP2 = True,
      tr_DialTimeout = g_DialTimeout st,
      tr_KeepAlive = 30 * Second,
      tr_Linger = 0,
      tr_Proxy = ProxyURL (Some proxyURL)\<rparr>"

text \<open>\<open>getHttpTransportHasPass\<close> of \<open>new.go\<close>: nil (\<open>None\<close>) when the parse fails.\<close>

definition getHttpTransportHasPass_new_go ::
    "go_env \<Rightarrow> string \<Rightarrow> string \<Rightarrow> string \<Rightarrow> globals \<Rightarrow> nat option \<times> globals" where
  "getHttpTransportHasPass_new_go env proxyUrl user pass st =
     (case parseProxyURLWithAuth env proxyUrl user pass of
        Inl err \<Rightarrow> (None, st\<lparr>g_log := g_log st @ [Parse_auth_proxy_url_failed_line]\<rparr>)
      | Inr urlProxy \<Rightarrow>
          let (a, st') = g_alloc (newBaseTransportWithAuth st urlProxy) st in (Some a, st'))"

definition getDefaultHeaders :: "go_env \<Rightarrow> string \<Rightarrow> (string \<times> string) list" where
  "getDefaultHeaders env uaType =
     [(''Accept-Encoding'', ''gzip, deflate''),
      (''Accept-Language'', ''zh-CN,zh;q=0.9,en;q=0.8''),
      (''Connection'', ''keep-alive''),
      (''Upgrade-Insecure-Requests'', ''1''),
      (''Accept'', ''text/html,application/xhtml+xml,application/xml;q=0.9,image/webp,image/apng,*/*;q=0.8''),
      (''User-Agent'',
        (let l = strings_ToLower env uaType in
         if l = ''baidu''
         then ''Mozilla/5.0 (compatible; Baiduspider/2.0; +http://www.baidu.com/search/spider.html)''
         else if l = ''google''
         then ''Mozilla/5.0 (compatible; Googlebot/2.1; +http://www.google.com/bot.html)''
         else if l = ''bing''
         then ''Mozilla/5.0 (compatible; bingbot/2.0; +http://www.bing.com/bingbot.htm)''
         else if l = ''chrome''
         then ''Mozilla/5.0 (Windows NT 10.0; Win64; x64) AppleWebKit/537.36 (KHTML, like Gecko) Chrome/120.0.0.0 Safari/537.36''
         else if l = ''360''
         then ''Mozilla/5.0 (Windows NT 10.0; WOW64) AppleWebKit/537.36 (KHTML, like Gecko) Chrome/45.0.2454.101 Safari/537.36''
         else if l = ''ie'' \<or> l = ''ie9''
         then ''Mozilla/5.0 (compatible; MSIE 9.0; Windows NT 10.0; Win64; x64; Trident/5.0)''
         else if l = ''''
         then ''Mozilla/5.0 (Windows NT 10.0; Win64; x64) AppleWebKit/537.36 (KHTML, like Gecko) Chrome/120.0.0.0 Safari/537.36''
         else uaType))]"

text \<open>\<open>NewGatherUtilHasPass\<close> of \<open>new.go\<close>. It has no error result.\<close>

definition NewGatherUtilHasPass_new_go ::
    "go_env \<Rightarrow> (string \<times> string) list \<Rightarrow> string \<Rightarrow> string \<Rightarrow> string \<Rightarrow> int \<Rightarrow> bool \<Rightarrow> globals \<Rightarrow>
       GatherStruct \<times> globals" where
  "NewGatherUtilHasPass_new_go env headers proxyURL user pass timeOut isCookieLogOpen st =
     (let needAddDefaultHeaders = (length headers = 1 \<and> map_of headers ''User-Agent'' \<noteq> None);
          hs = (if needAddDefaultHeaders then getDefaultHeaders env (the (map_of headers ''User-Agent''))
                else headers);
          jar = newWebCookieJar isCookieLogOpen;
          timeout = (if timeOut \<le> 0 then 0 else wrap64 (timeOut * Second))
      in case getHttpTransportHasPass_new_go env proxyURL user pass st of
           (None, st') \<Rightarrow>
             (\<lparr>Client = Some \<lparr>cl_Transport = None, cl_Jar = None, cl_Timeout = timeout\<rparr>,
               Headers = hs, safeHeaders = hs, J = Some jar\<rparr>,
              st'\<lparr>g_log := g_log st' @ [Create_auth_proxy_transport_failed_use_basic_client]\<rparr>)
         | (Some transport, st') \<Rightarrow>
             (\<lparr>Client = Some \<lparr>cl_Transport = Some transport, cl_Jar = Some jar, cl_Timeout = timeout\<rparr>,
               Headers = hs, safeHeaders = hs, J = Some jar\<rparr>, st'))"

text \<open>The registry after the package's \<open>init\<close>, which calls \<open>UseSlowConnConfig\<close>.\<close>

definition registry1 :: registry where
  "registry1 = snd (UseSlowConnConfig registry0)"

section \<open>The instance pool: construction\<close>

record PoolConfig =
  pool_MaxIdleConns :: int
  MaxIdleConnsPerHostRatio :: float64
  TimeoutSecond :: int
  RetryIntervalMs :: int
  MaxPoolSize :: int
  IsUseSemaphore :: bool

definition defaultPoolConfig :: PoolConfig where
  "defaultPoolConfig = \<lparr>pool_MaxIdleConns = 0, MaxIdleConnsPerHostRatio = ratio_0_2,
     TimeoutSecond = 30, RetryIntervalMs = 100, MaxPoolSize = 100, IsUseSemaphore = True\<rparr>"

text \<open>
  A \<open>Pool\<close>: the free table \<open>unUsed\<close> (a \<open>sync.Map\<close> from index to flag), the
  instances, the semaphore channel (nil, or the number of tokens it holds and its
  capacity) and the configuration.
\<close>

record Pool =
  unUsed :: "nat \<rightharpoonup> bool"
  pool :: "GatherStruct list"
  sem :: "(nat \<times> nat) option"
  config :: PoolConfig

definition initFastConfigByTimeout :: "int \<Rightarrow> registry \<Rightarrow> panic option \<times> registry" where
  "initFastConfigByTimeout timeoutSecond reg =
     SetGatherConfigByClientTimeout (wrap64 (timeoutSecond * Second)) False True reg"

definition getValidatedConfig :: "PoolConfig \<Rightarrow> PoolConfig" where
  "getValidatedConfig cfg =
     (let cfg1 = (if float64_le_zero (MaxIdleConnsPerHostRatio cfg) \<or>
                     float64_gt_one (MaxIdleConnsPerHostRatio cfg)
                  then cfg\<lparr>MaxIdleConnsPerHostRatio := MaxIdleConnsPerHostRatio defaultPoolConfig\<rparr>
                  else cfg);
          cfg2 = (if TimeoutSecond cfg1 \<le> 0
                  then cfg1\<lparr>TimeoutSecond := TimeoutSecond defaultPoolConfig\<rparr> else cfg1);
          cfg3 = (if RetryIntervalMs cfg2 < 10 \<or> RetryIntervalMs cfg2 > 1000
                  then cfg2\<lparr>RetryIntervalMs := RetryIntervalMs defaultPoolConfig\<rparr> else cfg2);
          cfg4 = (if MaxPoolSize cfg3 \<le> 0
                  then cfg3\<lparr>MaxPoolSize := MaxPoolSize defaultPoolConfig\<rparr> else cfg3)
      in cfg4)"

definition adjustPoolSize :: "int \<Rightarrow> int \<Rightarrow> int" where
  "adjustPoolSize num maxPoolSize =
     (if num \<le> 0 then 1 else if num > maxPoolSize then maxPoolSize else num)"

text \<open>
  \<open>newGatherUtilWithCustomConfig\<close> takes the transport the factory returns and
  overwrites its two idle-connection fields in place; with an empty proxy address that
  transport is the shared singleton.
\<close>

definition newGatherUtilWithCustomConfig ::
    "(string \<times> string) list \<Rightarrow> string \<Rightarrow> int \<Rightarrow> bool \<Rightarrow> int \<Rightarrow> PoolConfig \<Rightarrow> registry \<Rightarrow>
       (panic + GatherStruct) \<times> registry" where
  "newGatherUtilWithCustomConfig headers proxyURL timeOut isCookieLogOpen maxIdleConns cfg reg =
     (let jar = newWebCookieJar isCookieLogOpen
      in case getHttpTransport proxyURL reg of
           (Inl p, reg') \<Rightarrow> (Inl p, reg')
         | (Inr transport, reg') \<Rightarrow>
             let perHost0 = int_of_float64
                   (float64_mul (float64_of_int maxIdleConns) (MaxIdleConnsPerHostRatio cfg));
                 perHost = (if perHost0 \<le> 0 then 1 else perHost0);
                 reg'' = reg'\<lparr>transports := (transports reg')
                           [transport := (transports reg' ! transport)
                              \<lparr>tr_MaxIdleConns := maxIdleConns,
                               tr_MaxIdleConnsPerHost := perHost\<rparr>]\<rparr>
             in (Inr \<lparr>Client = Some \<lparr>cl_Transport = Some transport, cl_Jar = Some jar,
                                     cl_Timeout = wrap64 (timeOut * Second)\<rparr>,
                       Headers = headers, safeHeaders = headers, J = Some jar\<rparr>, reg''))"

text \<open>The loop that creates the instances, the first created first.\<close>

fun build_instances ::
    "nat \<Rightarrow> (string \<times> string) list \<Rightarrow> string \<Rightarrow> int \<Rightarrow> bool \<Rightarrow> int \<Rightarrow> PoolConfig \<Rightarrow> registry \<Rightarrow>
       (panic + GatherStruct list) \<times> registry" where
  "build_instances 0 headers proxyURL timeOut isCookieLogOpen maxIdleConns cfg reg = (Inr [], reg)"
| "build_instances (Suc n) headers proxyURL timeOut isCookieLogOpen maxIdleConns cfg reg =
     (case newGatherUtilWithCustomConfig headers proxyURL timeOut isCookieLogOpen maxIdleConns cfg reg of
        (Inl p, reg') \<Rightarrow> (Inl p, reg')
      | (Inr ga, reg') \<Rightarrow>
          (case build_instances n headers proxyURL timeOut isCookieLogOpen maxIdleConns cfg reg' of
             (Inl p, reg'') \<Rightarrow> (Inl p, reg'')
           | (Inr gas, reg'') \<Rightarrow> (Inr (ga # gas), reg'')))"

text \<open>What both constructors do once the configuration of the pool is fixed.\<close>

definition build_pool ::
    "(string \<times> string) list \<Rightarrow> string \<Rightarrow> int \<Rightarrow> bool \<Rightarrow> int \<Rightarrow> PoolConfig \<Rightarrow> registry \<Rightarrow>
       (panic + Pool) \<times> registry" where
  "build_pool headers proxyURL timeOut isCookieLogOpen num0 cfg reg =
     (let num = adjustPoolSize num0 (MaxPoolSize cfg);
          finalMaxIdleConns = (if pool_MaxIdleConns cfg = 0 then num else pool_MaxIdleConns cfg);
          sem0 = (if IsUseSemaphore cfg then Some (nat num, nat num) else None)
      in if IsUseSemaphore cfg \<and> num < 0 then (Inl Negative_channel_size, reg)
         else
           case build_instances (nat num) headers proxyURL timeOut isCookieLogOpen
                  finalMaxIdleConns cfg reg of
             (Inl p, reg') \<Rightarrow> (Inl p, reg')
           | (Inr gas, reg') \<Rightarrow>
               (Inr \<lparr>unUsed = (\<lambda>i. if i < nat num then Some True else None),
                      pool = gas, sem = sem0, config = cfg\<rparr>, reg'))"

text \<open>The two constructors of the second pool file (\<open>part_003\<close>, from line 302).\<close>

definition NewGatherUtilPool ::
    "(string \<times> string) list \<Rightarrow> string \<Rightarrow> int \<Rightarrow> bool \<Rightarrow> int \<Rightarrow> registry \<Rightarrow>
       (panic + Pool) \<times> registry" where
  "NewGatherUtilPool headers proxyURL timeOut isCookieLogOpen num reg =
     (case initFastConfigByTimeout timeOut reg of
        (Some p, reg') \<Rightarrow> (Inl p, reg')
      | (None, reg') \<Rightarrow>
          build_pool headers proxyURL timeOut isCookieLogOpen num defaultPoolConfig reg')"

definition NewGatherUtilPoolWithConfig ::
    "(string \<times> string) list \<Rightarrow> string \<Rightarrow> int \<Rightarrow> bool \<Rightarrow> int \<Rightarrow> PoolConfig \<Rightarrow> registry \<Rightarrow>
       (panic + Pool) \<times> registry" where
  "NewGatherUtilPoolWithConfig headers proxyURL timeOut isCookieLogOpen num cfg reg =
     (case initFastConfigByTimeout timeOut reg of
        (Some p, reg') \<Rightarrow> (Inl p, reg')
      | (None, reg') \<Rightarrow>
          build_pool headers proxyURL timeOut isCookieLogOpen num (getValidatedConfig cfg) reg')"

text \<open>
  Two properties of a transport: its idle-connection fields have the given values, and
  its other fields are those \<open>newTransport\<close> takes from the given configuration.
\<close>

definition sized :: "int \<Rightarrow> int \<Rightarrow> Transport \<Rightarrow> bool" where
  "sized m h t \<longleftrightarrow> tr_MaxIdleConns t = m \<and> tr_MaxIdleConnsPerHost t = h"

definition has_profile :: "GatherConfig \<Rightarrow> Transport \<Rightarrow> bool" where
  "has_profile c t \<longleftrightarrow>
     tr_InsecureSkipVerify t = TLSInsecureSkipVerify c \<and>
     tr_IdleConnTimeout t = IdleConnTimeout c \<and>
     tr_TLSHandshakeTimeout t = TLSHandshakeTimeout c \<and>
     tr_ExpectContinueTimeout t = ExpectContinueTimeout c \<and>
     tr_ResponseHeaderTimeout t = ResponseHeaderTimeout c \<and>
     tr_DisableCompression t = DisableCompression c \<and>
     tr_ForceAttemptHTTP2 t = ForceAttemptHTTP2 c \<and>
     tr_DialTimeout t = DialTimeout c \<and>
     tr_KeepAlive t = KeepAlive c \<and>
     tr_Linger t = TCPLinger c"

text \<open>The transport of an instance, looked up among the allocated transports.\<close>

definition transport_of :: "registry \<Rightarrow> GatherStruct \<Rightarrow> Transport option" where
  "transport_of reg g =
     (case Client g of
        None \<Rightarrow> None
      | Some c \<Rightarrow>
          (case cl_Transport c of
             None \<Rightarrow> None
           | Some a \<Rightarrow> if a < length (transports reg) then Some (transports reg ! a) else None))"

text \<open>
  A registry is consistent with a configuration when that configuration is the active
  one and the cached transport without proxy, if there is one, was built from it.
\<close>

definition consistent :: "GatherConfig \<Rightarrow> registry \<Rightarrow> bool" where
  "consistent c reg \<longleftrightarrow>
     globalConfig reg = Some c \<and>
     (case transportNoProxy reg of
        None \<Rightarrow> True
      | Some a \<Rightarrow> a < length (transports reg) \<and> has_profile c (transports reg ! a))"

text \<open>
  The cached transport without proxy, if there is one, is none of the first \<open>L\<close>
  transports.
\<close>

definition fresh_cache :: "nat \<Rightarrow> registry \<Rightarrow> bool" where
  "fresh_cache L reg \<longleftrightarrow> L \<le> length (transports reg) \<and>
     (case transportNoProxy reg of None \<Rightarrow> True | Some a \<Rightarrow> L \<le> a)"

text \<open>The per-host idle budget of a pool: the product, truncated, and at least 1.\<close>

definition per_host_budget :: "int \<Rightarrow> float64 \<Rightarrow> int" where
  "per_host_budget maxIdleConns ratio =
     max 1 (int_of_float64 (float64_mul (float64_of_int maxIdleConns) ratio))"

text \<open>The instance has a transport, built from the profile and sized as given.\<close>

definition instance_ok :: "GatherConfig \<Rightarrow> int \<Rightarrow> int \<Rightarrow> registry \<Rightarrow> GatherStruct \<Rightarrow> bool" where
  "instance_ok c m h reg g \<longleftrightarrow>
     (case transport_of reg g of None \<Rightarrow> False | Some t \<Rightarrow> has_profile c t \<and> sized m h t)"

section \<open>The instance pool: exchanges under concurrent callers\<close>

text \<open>
  The four exchange operations of the pool differ only in the method of the leased
  instance they delegate to.
\<close>

datatype pool_call =
    Call_Get string string
  | Call_GetUtil string string string
  | Call_Post string string "(string \<times> string) list"
  | Call_PostUtil string string string "(string \<times> string) list"

definition delegate ::
    "go_env \<Rightarrow> pool_call \<Rightarrow> GatherStruct \<Rightarrow>
       (panic + string \<times> string \<times> go_error option) \<times> GatherStruct option" where
  "delegate env cl g =
     (case cl of
        Call_Get u r \<Rightarrow> GetUtil env (Some g) u r ''''
      | Call_GetUtil u r c \<Rightarrow> GetUtil env (Some g) u r c
      | Call_Post u r m \<Rightarrow> Post env (Some g) u r m
      | Call_PostUtil u r c m \<Rightarrow> PostUtil env (Some g) u r c m)"

text \<open>
  Go's integer division truncates towards zero. \<open>maxRetry\<close> is the bound of the loop
  of \<open>getPoolIndex\<close>.
\<close>

definition go_div :: "int \<Rightarrow> int \<Rightarrow> int" where
  "go_div a b = wrap64 (sgn a * sgn b * (\<bar>a\<bar> div \<bar>b\<bar>))"

definition maxRetry :: "PoolConfig \<Rightarrow> int" where
  "maxRetry cfg = go_div (wrap64 (TimeoutSecond cfg * 1000)) (RetryIntervalMs cfg)"

text \<open>
  A caller is a goroutine inside one exchange operation. Its program counter names the
  statement it is about to execute; \<open>defers\<close> is its stack of deferred calls, run on
  every return and on a panic. Two more fields record what it holds: \<open>permit\<close>, from
  its receive on the semaphore until its deferred send, and \<open>lease\<close>, the index it
  deleted from \<open>unUsed\<close>, until its deferred \<open>Store(index, true)\<close>.
\<close>

datatype deferred = Cancel | Sem_release | Store_free nat

datatype pc =
    At_entry
  | At_select
  | At_getPoolIndex
  | At_loop nat
  | In_range nat "nat list"
  | Found nat
  | Got_index nat
  | In_exchange nat
  | Returning "panic + string \<times> string \<times> go_error option"
  | Done "panic + string \<times> string \<times> go_error option"

record caller =
  call :: pool_call
  pc :: pc
  defers :: "deferred list"
  permit :: bool
  lease :: "nat option"

record world =
  shared :: Pool
  callers :: "caller list"

text \<open>
  What the scheduler and the clock decide at a step of a caller: \<open>Ctx_done\<close> is the
  acquisition timeout firing at a \<open>select\<close>, \<open>Sem_receive\<close> the receive of a token,
  \<open>Range_start ks\<close> the start of a \<open>Range\<close> over \<open>unUsed\<close> that will visit the keys
  \<open>ks\<close> in this order, \<open>Proceed\<close> the next statement.
\<close>

datatype action = Proceed | Ctx_done | Sem_receive | Range_start "nat list"

definition no_free_client :: "panic + string \<times> string \<times> go_error option" where
  "no_free_client = Inr ('''', '''', Some errNoFreeClinetFind)"

text \<open>
  One atomic step of a caller on the pool, or \<open>None\<close> when the action is not enabled
  (a receive on an empty channel and a send on a full one block). \<open>Range\<close> loads the
  flag of each key when it visits it; the callback's \<open>Delete\<close> is a step of its own.
\<close>

definition caller_step :: "go_env \<Rightarrow> action \<Rightarrow> Pool \<Rightarrow> caller \<Rightarrow> (Pool \<times> caller) option" where
  "caller_step env a p c =
     (case pc c of
        At_entry \<Rightarrow>
          (if a = Proceed then Some (p, c\<lparr>pc := At_select, defers := [Cancel]\<rparr>) else None)
      | At_select \<Rightarrow>
          (if IsUseSemaphore (config p) then
             (case a of
                Sem_receive \<Rightarrow>
                  (case sem p of
                     Some (Suc n, cap) \<Rightarrow>
                       Some (p\<lparr>sem := Some (n, cap)\<rparr>,
                             c\<lparr>pc := At_getPoolIndex, defers := Sem_release # defers c,
                               permit := True\<rparr>)
                   | _ \<Rightarrow> None)
              | Ctx_done \<Rightarrow> Some (p, c\<lparr>pc := Returning no_free_client\<rparr>)
              | _ \<Rightarrow> None)
           else (if a = Proceed then Some (p, c\<lparr>pc := At_getPoolIndex\<rparr>) else None))
      | At_getPoolIndex \<Rightarrow>
          (if a = Proceed then
             (if RetryIntervalMs (config p) = 0
              then Some (p, c\<lparr>pc := Returning (Inl Division_by_zero)\<rparr>)
              else Some (p, c\<lparr>pc := At_loop 0\<rparr>))
           else None)
      | At_loop num \<Rightarrow>
          (if int num < maxRetry (config p) then
             (case a of
                Ctx_done \<Rightarrow> Some (p, c\<lparr>pc := Returning no_free_client\<rparr>)
              | Range_start ks \<Rightarrow>
                  (if distinct ks \<and> list_all (\<lambda>k. k < length (pool p)) ks \<and>
                      list_all (\<lambda>k. unUsed p k = None \<or> k \<in> set ks) [0..<length (pool p)]
                   then Some (p, c\<lparr>pc := In_range num ks\<rparr>) else None)
              | _ \<Rightarrow> None)
           else (if a = Proceed then Some (p, c\<lparr>pc := Returning no_free_client\<rparr>) else None))
      | In_range num ks \<Rightarrow>
          (if a = Proceed then
             (case ks of
                [] \<Rightarrow> Some (p, c\<lparr>pc := At_loop (Suc num)\<rparr>)
              | k # ks' \<Rightarrow>
                  (if unUsed p k = Some True then Some (p, c\<lparr>pc := Found k\<rparr>)
                   else Some (p, c\<lparr>pc := In_range num ks'\<rparr>)))
           else None)
      | Found k \<Rightarrow>
          (if a = Proceed
           then Some (p\<lparr>unUsed := (unUsed p)(k := None)\<rparr>, c\<lparr>pc := Got_index k, lease := Some k\<rparr>)
           else None)
      | Got_index k \<Rightarrow>
          (if a = Proceed
           then Some (p, c\<lparr>pc := In_exchange k, defers := Store_free k # defers c\<rparr>)
           else None)
      | In_exchange k \<Rightarrow>
          (if a = Proceed then
             (if k < length (pool p) then
                (case delegate env (call c) (pool p ! k) of
                   (r, g') \<Rightarrow>
                     Some (p\<lparr>pool := (pool p)[k := (case g' of Some g \<Rightarrow> g | None \<Rightarrow> pool p ! k)]\<rparr>,
                           c\<lparr>pc := Returning r\<rparr>))
              else Some (p, c\<lparr>pc := Returning (Inl Index_out_of_range)\<rparr>))
           else None)
      | Returning r \<Rightarrow>
          (if a = Proceed then
             (case defers c of
                [] \<Rightarrow> Some (p, c\<lparr>pc := Done r\<rparr>)
              | Cancel # ds \<Rightarrow> Some (p, c\<lparr>defers := ds\<rparr>)
              | Store_free k # ds \<Rightarrow>
                  Some (p\<lparr>unUsed := (unUsed p)(k \<mapsto> True)\<rparr>, c\<lparr>defers := ds, lease := None\<rparr>)
              | Sem_release # ds \<Rightarrow>
                  (case sem p of
                     Some (n, cap) \<Rightarrow>
                       if n < cap
                       then Some (p\<lparr>sem := Some (Suc n, cap)\<rparr>, c\<lparr>defers := ds, permit := False\<rparr>)
                       else None
                   | None \<Rightarrow> None))
           else None)
      | Done r \<Rightarrow> None)"

text \<open>A step of the world: caller \<open>t\<close> takes the step.\<close>

definition step :: "go_env \<Rightarrow> world \<Rightarrow> nat \<times> action \<Rightarrow> world option" where
  "step env w ev =
     (case ev of
        (t, a) \<Rightarrow>
          if t < length (callers w) then
            (case caller_step env a (shared w) (callers w ! t) of
               None \<Rightarrow> None
             | Some (p', c') \<Rightarrow> Some \<lparr>shared = p', callers = (callers w)[t := c']\<rparr>)
          else None)"

fun run :: "go_env \<Rightarrow> world \<Rightarrow> (nat \<times> action) list \<Rightarrow> world option" where
  "run env w [] = Some w"
| "run env w (ev # evs) = (case step env w ev of None \<Rightarrow> None | Some w' \<Rightarrow> run env w' evs)"

text \<open>The world in which the given calls have just been made on a pool.\<close>

definition start :: "Pool \<Rightarrow> pool_call list \<Rightarrow> world" where
  "start p calls =
     \<lparr>shared = p,
      callers = map (\<lambda>cl. \<lparr>call = cl, pc = At_entry, defers = [], permit = False, lease = None\<rparr>) calls\<rparr>"

text \<open>
  A pool as the constructors leave it: every index is marked free and the semaphore, if
  it is used, holds one token per instance.
\<close>

definition fresh_pool :: "Pool \<Rightarrow> bool" where
  "fresh_pool p \<longleftrightarrow>
     unUsed p = (\<lambda>i. if i < length (pool p) then Some True else None) \<and>
     sem p = (if IsUseSemaphore (config p) then Some (length (pool p), length (pool p)) else None)"

text \<open>The number of callers that hold a leased instance, and that hold a permit.\<close>

definition holders :: "world \<Rightarrow> nat" where
  "holders w = length (filter (\<lambda>c. lease c \<noteq> None) (callers w))"

definition permits :: "world \<Rightarrow> nat" where
  "permits w = length (filter permit (callers w))"

text \<open>
  A pool of one instance in polling mode (\<open>IsUseSemaphore\<close> off), and a schedule of
  two calls of \<open>Get\<close> on it: both callers enter the loop and start a \<open>Range\<close>, both
  load the flag of index 0 and find it true, then both delete index 0, and both register
  their deferred \<open>Store\<close> and stand before the exchange on instance 0.
\<close>

definition polling_pool :: Pool where
  "polling_pool =
     \<lparr>unUsed = (\<lambda>i. if i < 1 then Some True else None),
      pool = [bare_instance],
      sem = None,
      config = defaultPoolConfig\<lparr>IsUseSemaphore := False\<rparr>\<rparr>"

definition racing_schedule :: "(nat \<times> action) list" where
  "racing_schedule =
     [(0, Proceed), (0, Proceed), (0, Proceed), (0, Range_start [0]),
      (1, Proceed), (1, Proceed), (1, Proceed), (1, Range_start [0]),
      (0, Proceed), (1, Proceed),
      (0, Proceed), (1, Proceed),
      (0, Proceed), (1, Proceed)]"

text \<open>
  The deferred calls a caller has registered once it is past the semaphore, and the
  relation between the program counter of a caller, its deferred calls and what it holds.
\<close>

definition sem_defers :: "PoolConfig \<Rightarrow> deferred list" where
  "sem_defers cfg = (if IsUseSemaphore cfg then [Sem_release, Cancel] else [Cancel])"

definition searching :: "PoolConfig \<Rightarrow> caller \<Rightarrow> bool" where
  "searching cfg c \<longleftrightarrow>
     defers c = sem_defers cfg \<and> permit c = IsUseSemaphore cfg \<and> lease c = None"

definition unwinding :: "PoolConfig \<Rightarrow> nat \<Rightarrow> caller \<Rightarrow> bool" where
  "unwinding cfg N c \<longleftrightarrow>
     permit c = (Sem_release \<in> set (defers c)) \<and>
     (case defers c of
        Store_free k # ds \<Rightarrow> lease c = Some k \<and> k < N \<and> ds = sem_defers cfg
      | ds \<Rightarrow> lease c = None \<and> (ds = sem_defers cfg \<or> ds = [Cancel] \<or> ds = []))"

definition wf_caller :: "PoolConfig \<Rightarrow> nat \<Rightarrow> caller \<Rightarrow> bool" where
  "wf_caller cfg N c =
     (case pc c of
        At_entry \<Rightarrow> defers c = [] \<and> \<not> permit c \<and> lease c = None
      | At_select \<Rightarrow> defers c = [Cancel] \<and> \<not> permit c \<and> lease c = None
      | At_getPoolIndex \<Rightarrow> searching cfg c
      | At_loop num \<Rightarrow> searching cfg c
      | In_range num ks \<Rightarrow>
          searching cfg c \<and> length ks \<le> N \<and> list_all (\<lambda>k. k < N) ks \<and> int num < maxRetry cfg
      | Found k \<Rightarrow> searching cfg c \<and> k < N
      | Got_index k \<Rightarrow>
          defers c = sem_defers cfg \<and> permit c = IsUseSemaphore cfg \<and> lease c = Some k \<and> k < N
      | In_exchange k \<Rightarrow>
          defers c = Store_free k # sem_defers cfg \<and> permit c = IsUseSemaphore cfg \<and>
          lease c = Some k \<and> k < N
      | Returning r \<Rightarrow> unwinding cfg N c
      | Done r \<Rightarrow> defers c = [] \<and> \<not> permit c \<and> lease c = None)"

text \<open>
  The invariant of the world: every caller is well-formed; in semaphore mode the tokens
  in the channel and the permits held add up to the capacity, the pool size; and every
  index of the pool is marked free or leased by a caller, no other key being in the
  table.
\<close>

definition sem_ok :: "world \<Rightarrow> bool" where
  "sem_ok w \<longleftrightarrow>
     (case sem (shared w) of
        None \<Rightarrow> \<not> IsUseSemaphore (config (shared w))
      | Some (n, cap) \<Rightarrow>
          IsUseSemaphore (config (shared w)) \<and> cap = length (pool (shared w)) \<and>
          n + permits w = cap)"

definition table_ok :: "world \<Rightarrow> bool" where
  "table_ok w \<longleftrightarrow>
     (\<forall>k. if k < length (pool (shared w))
          then unUsed (shared w) k = Some True \<or>
               (\<exists>i < length (callers w). lease (callers w ! i) = Some k)
          else unUsed (shared w) k = None)"

definition world_ok :: "world \<Rightarrow> bool" where
  "world_ok w \<longleftrightarrow>
     list_all (wf_caller (config (shared w)) (length (pool (shared w)))) (callers w) \<and>
     sem_ok w \<and> table_ok w"

text \<open>
  The part of the invariant that does not depend on the table, and the state of the
  semaphore the constructors leave: one token per instance.
\<close>

definition permits_ok :: "world \<Rightarrow> bool" where
  "permits_ok w \<longleftrightarrow>
     list_all (wf_caller (config (shared w)) (length (pool (shared w)))) (callers w) \<and> sem_ok w"

definition full_semaphore :: "Pool \<Rightarrow> bool" where
  "full_semaphore p \<longleftrightarrow>
     sem p = (if IsUseSemaphore (config p) then Some (length (pool p), length (pool p)) else None)"

text \<open>A caller that has not had an index so far, and can only fail with the sentinel.\<close>

definition empty_handed :: "caller \<Rightarrow> bool" where
  "empty_handed c =
     (case pc c of
        At_entry \<Rightarrow> True
      | At_select \<Rightarrow> True
      | At_getPoolIndex \<Rightarrow> True
      | At_loop num \<Rightarrow> True
      | In_range num ks \<Rightarrow> True
      | Returning r \<Rightarrow> r = no_free_client
      | Done r \<Rightarrow> r = no_free_client
      | _ \<Rightarrow> False)"

definition at_Found :: "caller \<Rightarrow> bool" where
  "at_Found c = (case pc c of Found k \<Rightarrow> True | _ \<Rightarrow> False)"

definition is_Done :: "caller \<Rightarrow> bool" where
  "is_Done c = (case pc c of Done r \<Rightarrow> True | _ \<Rightarrow> False)"

text \<open>
  Along the run of a schedule, caller \<open>t\<close> never finds the flag of an index true: no
  instance is free whenever it looks.
\<close>

fun never_found :: "go_env \<Rightarrow> nat \<Rightarrow> world \<Rightarrow> (nat \<times> action) list \<Rightarrow> bool" where
  "never_found env t w [] = (\<not> at_Found (callers w ! t))"
| "never_found env t w (ev # evs) =
     (\<not> at_Found (callers w ! t) \<and>
      (case step env w ev of None \<Rightarrow> True | Some w' \<Rightarrow> never_found env t w' evs))"

text \<open>An upper bound of the number of steps a caller can still take.\<close>

definition budget :: "PoolConfig \<Rightarrow> nat \<Rightarrow> caller \<Rightarrow> nat" where
  "budget cfg N c =
     (case pc c of
        At_entry \<Rightarrow> 11 + nat (maxRetry cfg) * (N + 2)
      | At_select \<Rightarrow> 10 + nat (maxRetry cfg) * (N + 2)
      | At_getPoolIndex \<Rightarrow> 9 + nat (maxRetry cfg) * (N + 2)
      | At_loop num \<Rightarrow> 8 + (nat (maxRetry cfg) - num) * (N + 2)
      | In_range num ks \<Rightarrow> 9 + (nat (maxRetry cfg) - Suc num) * (N + 2) + length ks
      | Found k \<Rightarrow> 7
      | Got_index k \<Rightarrow> 6
      | In_exchange k \<Rightarrow> 5
      | Returning r \<Rightarrow> Suc (length (defers c))
      | Done r \<Rightarrow> 0)"

text \<open>
  A pool of one instance in semaphore mode, and a schedule of two calls of \<open>Get\<close> on
  it: the first caller takes the token and the instance and stands before its exchange;
  the second finds the channel empty until its timeout fires, and returns.
\<close>

definition single_pool :: Pool where
  "single_pool =
     \<lparr>unUsed = (\<lambda>i. if i < 1 then Some True else None),
      pool = [bare_instance],
      sem = Some (1, 1),
      config = defaultPoolConfig\<rparr>"

definition starving_schedule :: "(nat \<times> action) list" where
  "starving_schedule =
     [(0, Proceed), (0, Sem_receive), (0, Proceed), (0, Range_start [0]), (0, Proceed),
      (0, Proceed), (0, Proceed),
      (1, Proceed), (1, Ctx_done), (1, Proceed), (1, Proceed)]"

section \<open>Properties of the machine numbers\<close>

text \<open>
  Rounding to a multiple of \<open>2 ^ d\<close> moves a number by at most half of \<open>2 ^ d\<close>; a
  significand of at most 53 bits is kept as it is.
\<close>

lemma round_half_even_bounds:
  "2 * m - 2 ^ d \<le> 2 * (round_half_even m d * 2 ^ d) \<and>
   2 * (round_half_even m d * 2 ^ d) \<le> 2 * m + 2 ^ d"
proof -
  define A :: int where "A = 2 ^ d"
  define q where "q = m div A"
  define r where "r = m mod A"
  have A: "0 < A" by (simp add: A_def)
  have m: "m = q * A + r" by (simp add: q_def r_def)
  have r: "0 \<le> r" "r < A" using A by (simp_all add: r_def)
  have up: "(q + 1) * A = q * A + A" by (simp add: algebra_simps)
  have "round_half_even m d = (if 2 * r > A \<or> (2 * r = A \<and> odd q) then q + 1 else q)"
    by (simp add: round_half_even_def Let_def A_def q_def r_def)
  then have "2 * m - A \<le> 2 * (round_half_even m d * A) \<and> 2 * (round_half_even m d * A) \<le> 2 * m + A"
    using m r up by (auto split: if_splits)
  then show ?thesis by (simp add: A_def)
qed

lemma float64_round_exact:
  assumes "\<bar>m\<bar> < 2 ^ 53" and "- 1074 \<le> e" and "e \<le> 900"
  shows "float64_round m e = Finite m e"
proof -
  have b: "bitlen \<bar>m\<bar> \<le> 53"
    using assms(1) by (simp add: bitlen_le_iff_power)
  then have "max (bitlen \<bar>m\<bar> - 53) (- 1074 - e) \<le> 0"
    using assms(2) by simp
  then show ?thesis
    using b assms(3) by (simp add: float64_round_def Let_def)
qed

text \<open>
  The truncated value of a rounded product \<open>P * 2 ^ -k\<close> is the integer \<open>q\<close> below the
  exact product whenever the next integer is further from the exact product than the
  rounding can reach.
\<close>

lemma truncated_product:
  fixes P q :: int and k :: nat
  assumes P: "0 < P" "P < 2 ^ 103" and k: "53 \<le> k" "k \<le> 55"
    and low: "q * 2 ^ k \<le> P" and gap: "2 ^ 50 < 2 * ((q + 1) * 2 ^ k - P)"
    and q: "0 \<le> q" "q < 2 ^ 63"
  shows "int_of_float64 (float64_round P (- int k)) = q"
proof -
  let ?b = "bitlen \<bar>P\<bar>"
  have abs: "\<bar>P\<bar> = P" using P by simp
  have b103: "?b \<le> 103"
    using P by (simp add: bitlen_le_iff_power)
  have b0: "0 \<le> ?b" by (rule bitlen_nonneg)
  show ?thesis
  proof (cases "?b \<le> 53")
    case True
    then have "\<bar>P\<bar> < 2 ^ 53" by (simp add: bitlen_le_iff_power)
    then have "float64_round P (- int k) = Finite P (- int k)"
      using k by (intro float64_round_exact) simp_all
    moreover have "P div 2 ^ k = q"
    proof (rule int_div_pos_eq [where r = "P - q * 2 ^ k"])
      show "P = 2 ^ k * q + (P - q * 2 ^ k)" by simp
      show "0 \<le> P - q * 2 ^ k" using low by simp
      have "(q + 1) * 2 ^ k = q * 2 ^ k + 2 ^ k" by (simp add: algebra_simps)
      then show "P - q * 2 ^ k < 2 ^ k" using gap by simp
    qed
    ultimately show ?thesis using P q k by (simp add: Let_def)
  next
    case False
    define d where "d = nat (?b - 53)"
    have d: "0 < d" "d \<le> 50" "int d = ?b - 53"
      using False b103 by (simp_all add: d_def)
    define j where "j = k - d"
    have j: "0 < j" "j + d = k" using d k by (simp_all add: j_def)
    define A :: int where "A = 2 ^ d"
    define B :: int where "B = 2 ^ j"
    define m' where "m' = round_half_even P d"
    have AB: "B * A = 2 ^ k" using j by (simp add: A_def B_def flip: power_add)
    have A0: "0 < A" and B0: "0 < B" by (simp_all add: A_def B_def)
    have "A \<le> 2 ^ 50" unfolding A_def using d(2) by (intro power_increasing) simp_all
    then have A50: "A \<le> 1125899906842624" by simp
    have rb: "2 * P - A \<le> 2 * (m' * A)" "2 * (m' * A) \<le> 2 * P + A"
      using round_half_even_bounds [of P d] by (simp_all add: m'_def A_def)
    have lo: "q * B \<le> m'"
    proof (rule ccontr)
      assume "\<not> q * B \<le> m'"
      then have "m' \<le> q * B - 1" by simp
      then have "m' * A \<le> (q * B - 1) * A" using A0 by (intro mult_right_mono) simp_all
      also have "\<dots> = q * (B * A) - A" by (simp add: algebra_simps)
      finally have le: "m' * A \<le> q * 2 ^ k - A" by (simp add: AB)
      define X Y where "X = q * 2 ^ k" and "Y = m' * A"
      have "Y \<le> X - A" using le by (simp add: X_def Y_def)
      moreover have "2 * P - A \<le> 2 * Y" using rb(1) by (simp add: Y_def)
      moreover have "X \<le> P" using low by (simp add: X_def)
      ultimately show False using A0 by linarith
    qed
    have hi: "m' < (q + 1) * B"
    proof (rule ccontr)
      assume "\<not> m' < (q + 1) * B"
      then have "(q + 1) * B \<le> m'" by simp
      then have "(q + 1) * B * A \<le> m' * A" using A0 by (intro mult_right_mono) simp_all
      moreover have "(q + 1) * B * A = (q + 1) * 2 ^ k" by (simp add: AB mult.assoc)
      ultimately have le: "(q + 1) * 2 ^ k \<le> m' * A" by simp
      define X Y where "X = (q + 1) * 2 ^ k" and "Y = m' * A"
      have "X \<le> Y" using le by (simp add: X_def Y_def)
      moreover have "2 * Y \<le> 2 * P + A" using rb(2) by (simp add: Y_def)
      moreover have "1125899906842624 < 2 * (X - P)" using gap by (simp add: X_def)
      ultimately show False using A50 by presburger
    qed
    have m'0: "0 \<le> m'"
    proof -
      have "0 \<le> q * B" using q(1) B0 by simp
      then show ?thesis using lo by linarith
    qed
    have "m' div B = q"
    proof (rule int_div_pos_eq [where r = "m' - q * B"])
      show "m' = B * q + (m' - q * B)" by simp
      show "0 \<le> m' - q * B" using lo by simp
      have "(q + 1) * B = q * B + B" by (simp add: algebra_simps)
      then show "m' - q * B < B" using hi by simp
    qed
    moreover have "float64_round P (- int k) = Finite m' (- int j)"
    proof -
      have "B \<le> 2 ^ 55" unfolding B_def using j k by (intro power_increasing) simp_all
      then have "(q + 1) * B \<le> 2 ^ 63 * 2 ^ 55"
        using q B0 by (intro mult_mono) simp_all
      then have "m' < 2 ^ 118" using hi by simp
      then have "bitlen \<bar>m'\<bar> \<le> 118"
        using m'0 by (simp add: bitlen_le_iff_power)
      moreover have "max (?b - 53) (- 1074 - (- int k)) = int d"
        using d k by simp
      moreover have "- int k + int d = - int j" using j by simp
      ultimately show ?thesis
        using d(1) by (simp add: float64_round_def Let_def m'_def abs)
    qed
    ultimately show ?thesis
      using m'0 j q by (simp add: Let_def B_def)
  qed
qed


text \<open>
  For a total timeout below \<open>2 ^ 51\<close> nanoseconds (26 days) the \<open>float64\<close> products
  with 0.2, 0.1 and 0.4, truncated, are exactly a fifth, a tenth and two fifths of the
  timeout, rounded down to a nanosecond.
\<close>

lemma scale_duration_product:
  assumes "0 < T" and "T < 2 ^ 51"
  shows "scale_duration T (Finite 3602879701896397 (- int k)) =
           int_of_float64 (float64_round (T * 3602879701896397) (- int k))"
proof -
  have "float64_of_int T = Finite T 0"
    unfolding float64_of_int_def using assms by (intro float64_round_exact) simp_all
  then show ?thesis by (simp add: scale_duration_def)
qed

lemma scale_duration_0_2:
  assumes "0 < T" and "T < 2 ^ 51"
  shows "scale_duration T ratio_0_2 = T div 5"
proof -
  define q f where "q = T div 5" and "f = T mod 5"
  have T: "T = 5 * q + f" and f: "0 \<le> f" "f < 5" by (simp_all add: q_def f_def)
  have q0: "0 \<le> q" using assms(1) by (simp add: q_def)
  have "int_of_float64 (float64_round (T * 3602879701896397) (- int 54)) = q"
  proof (rule truncated_product)
    show "0 < T * 3602879701896397" using assms(1) by simp
    show "T * 3602879701896397 < 2 ^ 103" using assms(2) by simp
    show "q * 2 ^ 54 \<le> T * 3602879701896397" using T f q0 assms by simp
    show "2 ^ 50 < 2 * ((q + 1) * 2 ^ 54 - T * 3602879701896397)" using T f q0 assms by simp
    show "0 \<le> q" by (rule q0)
    show "q < 2 ^ 63" using T f assms by simp
  qed simp_all
  then show ?thesis
    using scale_duration_product [OF assms, of 54] by (simp add: ratio_0_2_def q_def)
qed

lemma scale_duration_0_1:
  assumes "0 < T" and "T < 2 ^ 51"
  shows "scale_duration T ratio_0_1 = T div 10"
proof -
  define q f where "q = T div 10" and "f = T mod 10"
  have T: "T = 10 * q + f" and f: "0 \<le> f" "f < 10" by (simp_all add: q_def f_def)
  have q0: "0 \<le> q" using assms(1) by (simp add: q_def)
  have "int_of_float64 (float64_round (T * 3602879701896397) (- int 55)) = q"
  proof (rule truncated_product)
    show "0 < T * 3602879701896397" using assms(1) by simp
    show "T * 3602879701896397 < 2 ^ 103" using assms(2) by simp
    show "q * 2 ^ 55 \<le> T * 3602879701896397" using T f q0 assms by simp
    show "2 ^ 50 < 2 * ((q + 1) * 2 ^ 55 - T * 3602879701896397)" using T f q0 assms by simp
    show "0 \<le> q" by (rule q0)
    show "q < 2 ^ 63" using T f assms by simp
  qed simp_all
  then show ?thesis
    using scale_duration_product [OF assms, of 55] by (simp add: ratio_0_1_def q_def)
qed

lemma scale_duration_0_4:
  assumes "0 < T" and "T < 2 ^ 51"
  shows "scale_duration T ratio_0_4 = 2 * T div 5"
proof -
  define q f where "q = 2 * T div 5" and "f = 2 * T mod 5"
  have T: "2 * T = 5 * q + f" and f: "0 \<le> f" "f < 5" by (simp_all add: q_def f_def)
  have q0: "0 \<le> q" using assms(1) by (simp add: q_def)
  have "int_of_float64 (float64_round (T * 3602879701896397) (- int 53)) = q"
  proof (rule truncated_product)
    show "0 < T * 3602879701896397" using assms(1) by simp
    show "T * 3602879701896397 < 2 ^ 103" using assms(2) by simp
    show "q * 2 ^ 53 \<le> T * 3602879701896397" using T f q0 assms by simp
    show "2 ^ 50 < 2 * ((q + 1) * 2 ^ 53 - T * 3602879701896397)" using T f q0 assms by simp
    show "0 \<le> q" by (rule q0)
    show "q < 2 ^ 63" using T f assms by simp
  qed simp_all
  then show ?thesis
    using scale_duration_product [OF assms, of 53] by (simp add: ratio_0_4_def q_def)
qed


text \<open>
  In general rounding changes a positive number by at most the fraction \<open>2 ^ -53\<close> of it.
\<close>

lemma float64_round_relative:
  assumes m: "0 < m" "m < 2 ^ 120" and e: "- 1000 \<le> e" "e \<le> 900"
  obtains m' d where "float64_round m e = Finite m' (e + int d)"
    and "0 < m'" and "m' \<le> 2 ^ 53" and "d \<le> 67"
    and "2 ^ 53 * (m' * 2 ^ d) \<le> (2 ^ 53 + 1) * m"
    and "(2 ^ 53 - 1) * m \<le> 2 ^ 53 * (m' * 2 ^ d)"
proof (cases "bitlen \<bar>m\<bar> \<le> 53")
  case True
  then have small: "\<bar>m\<bar> < 2 ^ 53" by (simp add: bitlen_le_iff_power)
  then have "float64_round m e = Finite m (e + int 0)"
    using e by (simp add: float64_round_exact)
  moreover have "m \<le> 2 ^ 53" using small by simp
  moreover have "2 ^ 53 * (m * 2 ^ 0) \<le> (2 ^ 53 + 1) * m" "(2 ^ 53 - 1) * m \<le> 2 ^ 53 * (m * 2 ^ 0)"
    using m(1) by simp_all
  ultimately show ?thesis using m(1) by (intro that [of m 0]) simp_all
next
  case False
  let ?b = "bitlen \<bar>m\<bar>"
  have abs: "\<bar>m\<bar> = m" using m by simp
  have b120: "?b \<le> 120" using m by (simp add: bitlen_le_iff_power)
  define d where "d = nat (?b - 53)"
  have d: "0 < d" "d \<le> 67" "int d = ?b - 53"
    using False b120 by (simp_all add: d_def)
  define A :: int where "A = 2 ^ d"
  define m' where "m' = round_half_even m d"
  define Y where "Y = m' * A"
  have A0: "0 < A" by (simp add: A_def)
  have "nat (?b - 1) = 52 + d" "nat ?b = 53 + d" using d by simp_all
  then have "2 ^ (52 + d) \<le> m" "m < 2 ^ (53 + d)"
    using bitlen_bounds [of m] m(1) abs by simp_all
  then have mA: "4503599627370496 * A \<le> m" "m < 9007199254740992 * A"
    by (simp_all add: power_add A_def)
  have rb: "2 * m - A \<le> 2 * Y" "2 * Y \<le> 2 * m + A"
    using round_half_even_bounds [of m d] by (simp_all add: m'_def A_def Y_def)
  have up: "9007199254740992 * Y \<le> 9007199254740993 * m"
    using rb(2) mA(1) by linarith
  have lo: "9007199254740991 * m \<le> 9007199254740992 * Y"
    using rb(1) mA(1) by linarith
  have m'0: "0 < m'"
  proof (rule ccontr)
    assume "\<not> 0 < m'"
    then have "m' * A \<le> 0 * A" using A0 by (intro mult_right_mono) simp_all
    then have "Y \<le> 0" by (simp add: Y_def)
    then show False using lo m(1) by linarith
  qed
  have m'53: "m' \<le> 2 ^ 53"
  proof (rule ccontr)
    assume "\<not> m' \<le> 2 ^ 53"
    then have "9007199254740993 \<le> m'" by simp
    then have "9007199254740993 * A \<le> m' * A" using A0 by (intro mult_right_mono) simp_all
    then have "9007199254740993 * A \<le> Y" by (simp add: Y_def)
    then show False using rb(2) mA(2) A0 by linarith
  qed
  have "float64_round m e = Finite m' (e + int d)"
  proof -
    have "m' < 2 ^ 54" using m'53 by simp
    then have "bitlen \<bar>m'\<bar> \<le> 54"
      using m'0 by (simp add: bitlen_le_iff_power)
    then have bl: "bitlen \<bar>round_half_even m d\<bar> \<le> 54" by (simp add: m'_def)
    have dmax: "max (?b - 53) (- 1074 - e) = int d"
      using d e by simp
    show ?thesis
      unfolding float64_round_def Let_def dmax m'_def
      using d(1,2) e bl m'0 by (simp add: m'_def)
  qed
  moreover have "2 ^ 53 * (m' * 2 ^ d) \<le> (2 ^ 53 + 1) * m"
    using up by (simp add: Y_def A_def)
  moreover have "(2 ^ 53 - 1) * m \<le> 2 ^ 53 * (m' * 2 ^ d)"
    using lo by (simp add: Y_def A_def)
  ultimately show ?thesis using m'0 m'53 d(2) by (intro that [of m' d])
qed


lemma div_bracket:
  fixes B m :: int
  assumes B: "0 < B"
  shows "(m div B) * B \<le> m" "m < (m div B + 1) * B"
proof -
  define q r where "q = m div B" and "r = m mod B"
  have "m = q * B + r" by (simp add: q_def r_def)
  moreover have "0 \<le> r" "r < B" using B by (simp_all add: r_def)
  moreover have "(q + 1) * B = q * B + B" by (simp add: algebra_simps)
  ultimately show "(m div B) * B \<le> m" "m < (m div B + 1) * B"
    unfolding q_def [symmetric] by simp_all
qed


text \<open>
  The truncated \<open>float64\<close> product of a positive \<open>int64\<close> and a positive
  \<open>M * 2 ^ -k\<close> lies within two roundings and one truncation of the exact product.
\<close>

lemma float64_product_bounds:
  fixes T M :: int and k :: nat
  assumes T: "0 < T" "T < 2 ^ 63" and M: "0 < M" "M < 2 ^ 53" and k: "k \<le> 1000"
    and range: "2 * (M * T) \<le> 2 ^ 63 * 2 ^ k"
  defines "D \<equiv> int_of_float64 (float64_mul (float64_of_int T) (Finite M (- int k)))"
  shows "0 \<le> D"
    and "2 ^ 106 * (D * 2 ^ k) \<le> (2 ^ 53 + 1) * ((2 ^ 53 + 1) * (M * T))"
    and "(2 ^ 53 - 1) * ((2 ^ 53 - 1) * (M * T)) < 2 ^ 106 * ((D + 1) * 2 ^ k)"
proof -
  have T120: "T < 2 ^ 120"
    using T(2) by (rule less_trans) simp
  obtain T' d1 where r1: "float64_round T 0 = Finite T' (0 + int d1)"
    and T': "0 < T'" "T' \<le> 2 ^ 53" and d1: "d1 \<le> 67"
    and up1: "2 ^ 53 * (T' * 2 ^ d1) \<le> (2 ^ 53 + 1) * T"
    and lo1: "(2 ^ 53 - 1) * T \<le> 2 ^ 53 * (T' * 2 ^ d1)"
    by (rule float64_round_relative [OF T(1) T120, of 0]) simp_all
  define P where "P = T' * M"
  have P0: "0 < P" using T'(1) M(1) by (simp add: P_def)
  have "P \<le> 2 ^ 53 * 2 ^ 53" unfolding P_def using T' M by (intro mult_mono) simp_all
  then have P120: "P < 2 ^ 120" by simp
  have e: "- 1000 \<le> int d1 - int k" "int d1 - int k \<le> 900" using d1 k by simp_all
  obtain m' d2 where r2: "float64_round P (int d1 - int k) = Finite m' (int d1 - int k + int d2)"
    and m': "0 < m'" "m' \<le> 2 ^ 53" and d2: "d2 \<le> 67"
    and up2: "2 ^ 53 * (m' * 2 ^ d2) \<le> (2 ^ 53 + 1) * P"
    and lo2: "(2 ^ 53 - 1) * P \<le> 2 ^ 53 * (m' * 2 ^ d2)"
    by (rule float64_round_relative [OF P0 P120 e])
  have D: "D = int_of_float64 (Finite m' (int d1 - int k + int d2))"
    using r1 r2 by (simp add: D_def float64_of_int_def P_def)
  define A1 :: int where "A1 = 2 ^ d1"
  define Y1 where "Y1 = T' * A1"
  define V where "V = m' * 2 ^ (d1 + d2)"
  define MT where "MT = M * T"
  define MY where "MY = M * Y1"
  have A1: "0 < A1" by (simp add: A1_def)
  have V: "V = m' * 2 ^ d2 * A1" by (simp add: V_def A1_def power_add)
  have PA: "P * A1 = MY" by (simp add: P_def Y1_def MY_def)
  have "2 ^ 53 * (m' * 2 ^ d2) * A1 \<le> (2 ^ 53 + 1) * P * A1"
    using up2 A1 by (intro mult_right_mono) simp_all
  then have upV: "9007199254740992 * V \<le> 9007199254740993 * MY"
    using PA by (simp add: V mult.assoc)
  have "(2 ^ 53 - 1) * P * A1 \<le> 2 ^ 53 * (m' * 2 ^ d2) * A1"
    using lo2 A1 by (intro mult_right_mono) simp_all
  then have loV: "9007199254740991 * MY \<le> 9007199254740992 * V"
    using PA by (simp add: V mult.assoc)
  have "M * (2 ^ 53 * Y1) \<le> M * ((2 ^ 53 + 1) * T)"
    using up1 M(1) by (intro mult_left_mono) (simp_all add: Y1_def A1_def)
  moreover have "M * (2 ^ 53 * Y1) = 2 ^ 53 * MY" "M * ((2 ^ 53 + 1) * T) = (2 ^ 53 + 1) * MT"
    by (simp_all add: MY_def MT_def)
  ultimately have upY: "9007199254740992 * MY \<le> 9007199254740993 * MT"
    by simp
  have "M * ((2 ^ 53 - 1) * T) \<le> M * (2 ^ 53 * Y1)"
    using lo1 M(1) by (intro mult_left_mono) (simp_all add: Y1_def A1_def)
  moreover have "M * (2 ^ 53 * Y1) = 2 ^ 53 * MY" "M * ((2 ^ 53 - 1) * T) = (2 ^ 53 - 1) * MT"
    by (simp_all add: MY_def MT_def)
  ultimately have loY: "9007199254740991 * MT \<le> 9007199254740992 * MY"
    by simp
  have upT: "2 ^ 106 * V \<le> (2 ^ 53 + 1) * ((2 ^ 53 + 1) * MT)"
    using upV upY by simp
  have loT: "(2 ^ 53 - 1) * ((2 ^ 53 - 1) * MT) \<le> 2 ^ 106 * V"
    using loV loY by simp
  have MT0: "0 < MT" using T(1) M(1) by (simp add: MT_def)
  define K :: int where "K = 2 ^ k"
  have K0: "0 < K" by (simp add: K_def)
  obtain t where t0: "0 \<le> t" and tV: "t * K \<le> V" "V < (t + 1) * K"
    and tD: "t < 2 ^ 63 \<Longrightarrow> D = t"
  proof (cases "0 \<le> int d1 - int k + int d2")
    case True
    define n where "n = nat (int d1 - int k + int d2)"
    have n: "n + k = d1 + d2" using True by (simp add: n_def)
    have "m' * 2 ^ n * K = V" by (simp add: V_def K_def mult.assoc flip: power_add n)
    moreover have "0 \<le> m' * 2 ^ n" using m'(1) by simp
    moreover have "D = m' * 2 ^ n" if "m' * 2 ^ n < 2 ^ 63"
      using that True \<open>0 \<le> m' * 2 ^ n\<close> by (simp add: D n_def Let_def)
    ultimately show ?thesis
      using K0 by (intro that [of "m' * 2 ^ n"]) (simp_all add: algebra_simps)
  next
    case False
    define j where "j = nat (- (int d1 - int k + int d2))"
    have j: "j + (d1 + d2) = k" "0 < j" using False by (simp_all add: j_def)
    define B :: int where "B = 2 ^ j"
    define C :: int where "C = 2 ^ (d1 + d2)"
    define t where "t = m' div B"
    have B: "0 < B" and C: "0 < C" by (simp_all add: B_def C_def)
    have BC: "B * C = K" by (simp add: B_def C_def K_def flip: power_add j(1))
    have VC: "V = m' * C" by (simp add: V_def C_def)
    have t0: "0 \<le> t" using m'(1) B by (simp add: t_def pos_imp_zdiv_nonneg_iff)
    have "t * B \<le> m'" "m' < (t + 1) * B"
      unfolding t_def using B by (rule div_bracket)+
    then have "t * B * C \<le> m' * C" "m' * C < (t + 1) * B * C"
      using C by simp_all
    then have tV: "t * K \<le> V" "V < (t + 1) * K"
      using BC by (simp_all add: VC mult.assoc)
    have "D = t" if "t < 2 ^ 63"
      using that False m'(1) t0 by (simp add: D Let_def t_def B_def j_def)
    then show ?thesis using t0 tV by (intro that [of t])
  qed
  have "t < 2 ^ 63"
  proof (rule ccontr)
    assume "\<not> t < 2 ^ 63"
    then have "2 ^ 63 * K \<le> t * K" using K0 by (intro mult_right_mono) simp_all
    moreover have "2 * MT \<le> 2 ^ 63 * K" using range by (simp add: MT_def K_def)
    ultimately have "2 * MT \<le> V" using tV(1) by simp
    then show False using upT MT0 by simp
  qed
  then have Dt: "D = t" by (rule tD)
  show "0 \<le> D" using Dt t0 by simp
  show "2 ^ 106 * (D * 2 ^ k) \<le> (2 ^ 53 + 1) * ((2 ^ 53 + 1) * (M * T))"
    using tV(1) upT by (simp add: Dt K_def MT_def)
  show "(2 ^ 53 - 1) * ((2 ^ 53 - 1) * (M * T)) < 2 ^ 106 * ((D + 1) * 2 ^ k)"
    using tV(2) loT by (simp add: Dt K_def MT_def)
qed

lemma scale_duration_bounds:
  fixes T :: int and k :: nat
  assumes T: "0 < T" "T < 2 ^ 63" and k: "53 \<le> k" "k \<le> 55"
  defines "D \<equiv> scale_duration T (Finite 3602879701896397 (- int k))"
  shows "0 \<le> D"
    and "2 ^ 106 * (D * 2 ^ k) \<le> (2 ^ 53 + 1) * ((2 ^ 53 + 1) * (3602879701896397 * T))"
    and "(2 ^ 53 - 1) * ((2 ^ 53 - 1) * (3602879701896397 * T)) < 2 ^ 106 * ((D + 1) * 2 ^ k)"
proof -
  define K :: int where "K = 2 ^ k"
  have "2 ^ 53 \<le> K" unfolding K_def using k by (intro power_increasing) simp_all
  then have "2 * (3602879701896397 * T) \<le> 2 ^ 63 * K"
    using T by simp
  then have r: "2 * (3602879701896397 * T) \<le> 2 ^ 63 * (2::int) ^ k"
    by (simp only: K_def)
  have k': "k \<le> 1000" using k by simp
  have M: "(0::int) < 3602879701896397" "(3602879701896397::int) < 2 ^ 53" by simp_all
  have D: "D = int_of_float64 (float64_mul (float64_of_int T) (Finite 3602879701896397 (- int k)))"
    by (simp only: D_def scale_duration_def)
  show "0 \<le> D"
    unfolding D by (rule float64_product_bounds(1) [OF T M k' r])
  show "2 ^ 106 * (D * 2 ^ k) \<le> (2 ^ 53 + 1) * ((2 ^ 53 + 1) * (3602879701896397 * T))"
    unfolding D by (rule float64_product_bounds(2) [OF T M k' r])
  show "(2 ^ 53 - 1) * ((2 ^ 53 - 1) * (3602879701896397 * T)) < 2 ^ 106 * ((D + 1) * 2 ^ k)"
    unfolding D by (rule float64_product_bounds(3) [OF T M k' r])
qed

text \<open>
  For every positive \<open>int64\<close> total timeout the three products are within a
  nanosecond and the fraction \<open>2 ^ -51\<close> of 20, 10 and 40 percent of the timeout.
\<close>

lemma scale_duration_near_0_2:
  assumes "0 < T" and "T < 2 ^ 63"
  shows "2 ^ 51 * (5 * scale_duration T ratio_0_2) \<le> (2 ^ 51 + 1) * T"
    and "(2 ^ 51 - 1) * T < 2 ^ 51 * (5 * (scale_duration T ratio_0_2 + 1))"
  using scale_duration_bounds [OF assms, of 54] assms(1)
  by (simp_all add: ratio_0_2_def)

lemma scale_duration_near_0_1:
  assumes "0 < T" and "T < 2 ^ 63"
  shows "2 ^ 51 * (10 * scale_duration T ratio_0_1) \<le> (2 ^ 51 + 1) * T"
    and "(2 ^ 51 - 1) * T < 2 ^ 51 * (10 * (scale_duration T ratio_0_1 + 1))"
  using scale_duration_bounds [OF assms, of 55] assms(1)
  by (simp_all add: ratio_0_1_def)

lemma scale_duration_near_0_4:
  assumes "0 < T" and "T < 2 ^ 63"
  shows "2 ^ 51 * (5 * scale_duration T ratio_0_4) \<le> (2 ^ 51 + 1) * (2 * T)"
    and "(2 ^ 51 - 1) * (2 * T) < 2 ^ 51 * (5 * (scale_duration T ratio_0_4 + 1))"
  using scale_duration_bounds [OF assms, of 53] assms(1)
  by (simp_all add: ratio_0_4_def)

section \<open>Properties of the configuration registry\<close>

lemma errMsgs_nonempty: "invalid_config c \<Longrightarrow> errMsgs c \<noteq> []"
  unfolding invalid_config_def errMsgs_def by auto

text \<open>
  Claim C5. When \<open>SetGatherConfig\<close> is given an invalid configuration (a nil
  configuration, or one with a negative phase timeout, an idle-connection timeout or
  keep-alive that is not positive, a pool size that is not positive or a negative TCP
  linger), the registry is left as it was, and the panic value carries one message for
  every violated field and for no other field.
\<close>

theorem SetGatherConfig_rejects_invalid:
  assumes "case cfg of None \<Rightarrow> True | Some c \<Rightarrow> invalid_config c"
  shows "snd (SetGatherConfig cfg reg) = reg \<and>
         (case cfg of
            None \<Rightarrow> fst (SetGatherConfig cfg reg) = Some Config_is_nil
          | Some c \<Rightarrow>
              (\<exists>msgs. fst (SetGatherConfig cfg reg) = Some (Config_invalid msgs) \<and>
                 (MaxIdleConns c \<le> 0 \<longleftrightarrow> MaxIdleConns_must_be_positive (MaxIdleConns c) \<in> set msgs) \<and>
                 (MaxIdleConnsPerHost c \<le> 0 \<longleftrightarrow>
                    MaxIdleConnsPerHost_must_be_positive (MaxIdleConnsPerHost c) \<in> set msgs) \<and>
                 (IdleConnTimeout c \<le> 0 \<longleftrightarrow>
                    IdleConnTimeout_must_be_positive (IdleConnTimeout c) \<in> set msgs) \<and>
                 (DialTimeout c < 0 \<longleftrightarrow>
                    DialTimeout_must_not_be_negative (DialTimeout c) \<in> set msgs) \<and>
                 (TLSHandshakeTimeout c < 0 \<longleftrightarrow>
                    TLSHandshakeTimeout_must_not_be_negative (TLSHandshakeTimeout c) \<in> set msgs) \<and>
                 (ExpectContinueTimeout c < 0 \<longleftrightarrow>
                    ExpectContinueTimeout_must_not_be_negative (ExpectContinueTimeout c) \<in> set msgs) \<and>
                 (ResponseHeaderTimeout c < 0 \<longleftrightarrow>
                    ResponseHeaderTimeout_must_not_be_negative (ResponseHeaderTimeout c) \<in> set msgs) \<and>
                 (TCPLinger c < 0 \<longleftrightarrow> TCPLinger_must_not_be_negative (TCPLinger c) \<in> set msgs) \<and>
                 (KeepAlive c \<le> 0 \<longleftrightarrow> KeepAlive_must_be_positive (KeepAlive c) \<in> set msgs)))"
proof (cases cfg)
  case None
  then show ?thesis by (simp add: SetGatherConfig_def)
next
  case (Some c)
  with assms have "errMsgs c \<noteq> []" by (simp add: errMsgs_nonempty)
  then have run: "SetGatherConfig cfg reg = (Some (Config_invalid (errMsgs c)), reg)"
    using Some by (simp add: SetGatherConfig_def)
  have "MaxIdleConns c \<le> 0 \<longleftrightarrow> MaxIdleConns_must_be_positive (MaxIdleConns c) \<in> set (errMsgs c)"
    and "MaxIdleConnsPerHost c \<le> 0 \<longleftrightarrow>
           MaxIdleConnsPerHost_must_be_positive (MaxIdleConnsPerHost c) \<in> set (errMsgs c)"
    and "IdleConnTimeout c \<le> 0 \<longleftrightarrow>
           IdleConnTimeout_must_be_positive (IdleConnTimeout c) \<in> set (errMsgs c)"
    and "DialTimeout c < 0 \<longleftrightarrow> DialTimeout_must_not_be_negative (DialTimeout c) \<in> set (errMsgs c)"
    and "TLSHandshakeTimeout c < 0 \<longleftrightarrow>
           TLSHandshakeTimeout_must_not_be_negative (TLSHandshakeTimeout c) \<in> set (errMsgs c)"
    and "ExpectContinueTimeout c < 0 \<longleftrightarrow>
           ExpectContinueTimeout_must_not_be_negative (ExpectContinueTimeout c) \<in> set (errMsgs c)"
    and "ResponseHeaderTimeout c < 0 \<longleftrightarrow>
           ResponseHeaderTimeout_must_not_be_negative (ResponseHeaderTimeout c) \<in> set (errMsgs c)"
    and "TCPLinger c < 0 \<longleftrightarrow> TCPLinger_must_not_be_negative (TCPLinger c) \<in> set (errMsgs c)"
    and "KeepAlive c \<le> 0 \<longleftrightarrow> KeepAlive_must_be_positive (KeepAlive c) \<in> set (errMsgs c)"
    by (simp_all add: errMsgs_def)
  with run Some show ?thesis by simp
qed

text \<open>
  The theorem at a configuration with a negative dial timeout and a zero idle-connection
  timeout, offered while the fast profile is active: both fields are reported and the fast
  profile stays.
\<close>

theorem SetGatherConfig_rejects_invalid_witness:
  "invalid_config bad_config \<and>
   snd (SetGatherConfig (Some bad_config) (snd (UseFastConnConfig registry0))) =
     snd (UseFastConnConfig registry0) \<and>
   fst (SetGatherConfig (Some bad_config) (snd (UseFastConnConfig registry0))) =
     Some (Config_invalid [IdleConnTimeout_must_be_positive 0, DialTimeout_must_not_be_negative (- 1)])"
proof -
  have inv: "invalid_config bad_config"
    by (simp add: invalid_config_def bad_config_def)
  then have h: "case Some bad_config of None \<Rightarrow> True | Some c \<Rightarrow> invalid_config c"
    by simp
  have "snd (SetGatherConfig (Some bad_config) (snd (UseFastConnConfig registry0))) =
          snd (UseFastConnConfig registry0)"
    using SetGatherConfig_rejects_invalid [OF h, of "snd (UseFastConnConfig registry0)"] by simp
  moreover have "fst (SetGatherConfig (Some bad_config) (snd (UseFastConnConfig registry0))) =
     Some (Config_invalid [IdleConnTimeout_must_be_positive 0, DialTimeout_must_not_be_negative (- 1)])"
    by (simp add: SetGatherConfig_def errMsgs_def bad_config_def Second_def)
  ultimately show ?thesis using inv by simp
qed

text \<open>A positive total timeout always yields an accepted configuration.\<close>

lemma timeout_derivation_aux:
  "0 < T \<Longrightarrow>
     fst (SetGatherConfigByClientTimeout T isSlowConn tlsInsecure reg) = None \<and>
     globalConfig (snd (SetGatherConfigByClientTimeout T isSlowConn tlsInsecure reg)) \<noteq> None"
  by (simp add: SetGatherConfigByClientTimeout_def SetGatherConfig_def errMsgs_def Let_def
        Second_def Millisecond_def)

text \<open>
  Claim C2. For every total timeout \<open>T > 0\<close> the derivation installs a configuration
  whose dial and TLS-handshake timeouts are the larger of 20 percent of \<open>T\<close> and one
  second, whose expect-continue timeout is the larger of 10 percent of \<open>T\<close> and half a
  second, and whose response-header timeout is the larger of 40 percent of \<open>T\<close> and two
  seconds in the fast profile and 0 (unbounded) in the slow profile. Durations are in
  nanoseconds. A percentage of \<open>T\<close> is the \<open>float64\<close> product the source computes,
  truncated: below \<open>2 ^ 51\<close> nanoseconds (26 days) it is exactly \<open>T div 5\<close>,
  \<open>T div 10\<close> and \<open>2 * T div 5\<close>; for every \<open>int64\<close> it is within a nanosecond and
  the fraction \<open>2 ^ -51\<close> of \<open>T / 5\<close>, \<open>T / 10\<close> and \<open>2 * T / 5\<close>.
\<close>

theorem timeout_derivation:
  assumes "0 < T"
  shows "\<exists>cfg dial expect header.
           SetGatherConfigByClientTimeout T isSlowConn tlsInsecure reg =
             (None, reg\<lparr>transportNoProxy := None, globalConfig := Some cfg\<rparr>) \<and>
           dial = scale_duration T ratio_0_2 \<and>
           expect = scale_duration T ratio_0_1 \<and>
           header = scale_duration T ratio_0_4 \<and>
           DialTimeout cfg = max dial 1000000000 \<and>
           TLSHandshakeTimeout cfg = max dial 1000000000 \<and>
           ExpectContinueTimeout cfg = max expect 500000000 \<and>
           ResponseHeaderTimeout cfg = (if isSlowConn then 0 else max header 2000000000) \<and>
           (T < 2 ^ 51 \<longrightarrow> dial = T div 5 \<and> expect = T div 10 \<and> header = 2 * T div 5) \<and>
           (T < 2 ^ 63 \<longrightarrow>
              2 ^ 51 * (5 * dial) \<le> (2 ^ 51 + 1) * T \<and>
              (2 ^ 51 - 1) * T < 2 ^ 51 * (5 * (dial + 1)) \<and>
              2 ^ 51 * (10 * expect) \<le> (2 ^ 51 + 1) * T \<and>
              (2 ^ 51 - 1) * T < 2 ^ 51 * (10 * (expect + 1)) \<and>
              2 ^ 51 * (5 * header) \<le> (2 ^ 51 + 1) * (2 * T) \<and>
              (2 ^ 51 - 1) * (2 * T) < 2 ^ 51 * (5 * (header + 1)))"
proof -
  let ?run = "SetGatherConfigByClientTimeout T isSlowConn tlsInsecure reg"
  let ?cfg = "the (globalConfig (snd ?run))"
  have run: "?run = (None, reg\<lparr>transportNoProxy := None, globalConfig := Some ?cfg\<rparr>)"
    and dial: "DialTimeout ?cfg = max (scale_duration T ratio_0_2) 1000000000"
    and tls: "TLSHandshakeTimeout ?cfg = max (scale_duration T ratio_0_2) 1000000000"
    and expect: "ExpectContinueTimeout ?cfg = max (scale_duration T ratio_0_1) 500000000"
    and header: "ResponseHeaderTimeout ?cfg =
        (if isSlowConn then 0 else max (scale_duration T ratio_0_4) 2000000000)"
    using assms
    by (simp_all add: SetGatherConfigByClientTimeout_def SetGatherConfig_def errMsgs_def Let_def
          Second_def Millisecond_def max_def)
  have exact: "T < 2 ^ 51 \<longrightarrow>
      scale_duration T ratio_0_2 = T div 5 \<and> scale_duration T ratio_0_1 = T div 10 \<and>
      scale_duration T ratio_0_4 = 2 * T div 5"
    using assms scale_duration_0_2 scale_duration_0_1 scale_duration_0_4 by blast
  have near: "T < 2 ^ 63 \<longrightarrow>
      2 ^ 51 * (5 * scale_duration T ratio_0_2) \<le> (2 ^ 51 + 1) * T \<and>
      (2 ^ 51 - 1) * T < 2 ^ 51 * (5 * (scale_duration T ratio_0_2 + 1)) \<and>
      2 ^ 51 * (10 * scale_duration T ratio_0_1) \<le> (2 ^ 51 + 1) * T \<and>
      (2 ^ 51 - 1) * T < 2 ^ 51 * (10 * (scale_duration T ratio_0_1 + 1)) \<and>
      2 ^ 51 * (5 * scale_duration T ratio_0_4) \<le> (2 ^ 51 + 1) * (2 * T) \<and>
      (2 ^ 51 - 1) * (2 * T) < 2 ^ 51 * (5 * (scale_duration T ratio_0_4 + 1))"
    using assms scale_duration_near_0_2 scale_duration_near_0_1 scale_duration_near_0_4
    by blast
  show ?thesis
    apply (rule exI [where x = ?cfg])
    apply (rule exI [where x = "scale_duration T ratio_0_2"])
    apply (rule exI [where x = "scale_duration T ratio_0_1"])
    apply (rule exI [where x = "scale_duration T ratio_0_4"])
    apply (intro conjI run dial tls expect header exact near refl)
    done
qed

text \<open>
  The theorem at a total timeout of thirty seconds in the fast profile: the phases get
  6, 6, 3 and 12 seconds. At three seconds every phase falls back to its floor, the
  response-header timeout from 1.2 to 2 seconds. At ten minutes in the slow profile the
  dial timeout is 120 seconds and the response-header timeout is 0.
\<close>

theorem timeout_derivation_witness:
  "(\<exists>cfg. SetGatherConfigByClientTimeout 30000000000 False True registry0 =
            (None, registry0\<lparr>transportNoProxy := None, globalConfig := Some cfg\<rparr>) \<and>
          DialTimeout cfg = 6000000000 \<and> TLSHandshakeTimeout cfg = 6000000000 \<and>
          ExpectContinueTimeout cfg = 3000000000 \<and> ResponseHeaderTimeout cfg = 12000000000) \<and>
   (\<exists>cfg. SetGatherConfigByClientTimeout 3000000000 False True registry0 =
            (None, registry0\<lparr>transportNoProxy := None, globalConfig := Some cfg\<rparr>) \<and>
          DialTimeout cfg = 1000000000 \<and> TLSHandshakeTimeout cfg = 1000000000 \<and>
          ExpectContinueTimeout cfg = 500000000 \<and> ResponseHeaderTimeout cfg = 2000000000) \<and>
   (\<exists>cfg. SetGatherConfigByClientTimeout 600000000000 True True registry0 =
            (None, registry0\<lparr>transportNoProxy := None, globalConfig := Some cfg\<rparr>) \<and>
          DialTimeout cfg = 120000000000 \<and> TLSHandshakeTimeout cfg = 120000000000 \<and>
          ExpectContinueTimeout cfg = 60000000000 \<and> ResponseHeaderTimeout cfg = 0)"
proof (intro conjI)
  show "\<exists>cfg. SetGatherConfigByClientTimeout 30000000000 False True registry0 =
            (None, registry0\<lparr>transportNoProxy := None, globalConfig := Some cfg\<rparr>) \<and>
          DialTimeout cfg = 6000000000 \<and> TLSHandshakeTimeout cfg = 6000000000 \<and>
          ExpectContinueTimeout cfg = 3000000000 \<and> ResponseHeaderTimeout cfg = 12000000000"
    using timeout_derivation [of 30000000000 False True registry0] by auto
  show "\<exists>cfg. SetGatherConfigByClientTimeout 3000000000 False True registry0 =
            (None, registry0\<lparr>transportNoProxy := None, globalConfig := Some cfg\<rparr>) \<and>
          DialTimeout cfg = 1000000000 \<and> TLSHandshakeTimeout cfg = 1000000000 \<and>
          ExpectContinueTimeout cfg = 500000000 \<and> ResponseHeaderTimeout cfg = 2000000000"
    using timeout_derivation [of 3000000000 False True registry0] by auto
  show "\<exists>cfg. SetGatherConfigByClientTimeout 600000000000 True True registry0 =
            (None, registry0\<lparr>transportNoProxy := None, globalConfig := Some cfg\<rparr>) \<and>
          DialTimeout cfg = 120000000000 \<and> TLSHandshakeTimeout cfg = 120000000000 \<and>
          ExpectContinueTimeout cfg = 60000000000 \<and> ResponseHeaderTimeout cfg = 0"
    using timeout_derivation [of 600000000000 True True registry0] by auto
qed

section \<open>Properties of Ungzip\<close>

text \<open>
  \<open>Ungzip\<close> of \<open>util.go\<close> returns input without the signature as it is, with no
  error (the empty input included), and on input with the signature it returns either the
  decompressed data or an error with the empty string, never the empty string as a
  success of a failed decompression.
\<close>

lemma Ungzip_unsigned: "\<not> has_gzip_signature data \<Longrightarrow> Ungzip lib data = (data, None)"
  by (auto simp add: Ungzip_def has_gzip_signature_def)

lemma Ungzip_empty: "Ungzip lib [] = ('''', None)"
  by (simp add: Ungzip_def)

lemma Ungzip_signed:
  "has_gzip_signature data \<Longrightarrow>
     (case gzip_NewReader lib data of
        Inl err \<Rightarrow> Ungzip lib data = ('''', Some (Gzip_error err))
      | Inr reader \<Rightarrow>
          (case io_ReadAll lib reader of
             Inl err \<Rightarrow> Ungzip lib data = ('''', Some (Gzip_error err))
           | Inr out \<Rightarrow> Ungzip lib data = (out, None)))"
  by (auto simp add: Ungzip_def has_gzip_signature_def split: sum.splits)

lemma hi_has_no_gzip_signature: "\<not> has_gzip_signature ''hi''"
  by (simp add: has_gzip_signature_def)

text \<open>
  Claim C9. For every byte sequence without the gzip signature 0x1F 0x8B, \<open>Ungzip\<close>
  returns the input unchanged with no error. The \<open>Ungzip\<close> of \<open>part_001\<close> does not:
  on the two bytes \<open>hi\<close>, which carry no signature, \<open>gzip.NewReader\<close> fails with
  \<open>unexpected EOF\<close>, a text without \<open>gzip: invalid header\<close>, and \<open>Ungzip\<close> returns
  the empty string and a wrapped error, whatever the gzip library does elsewhere.
\<close>

theorem Ungzip_part_001_short_input:
  "Ungzip_part_001 lib ''hi'' =
     ('''', Some (Wrapped Gzip_decompress_failed (Gzip_error io_ErrUnexpectedEOF)))"
proof -
  have "\<not> strings_Contains ''unexpected EOF'' ''gzip: invalid header''"
    by code_simp
  then show ?thesis
    by (simp add: Ungzip_part_001_def gzip_NewReader_def)
qed

section \<open>Properties of the client instance\<close>

lemma newHttpRequest_leaves_instance:
  "snd (newHttpRequest env g meth target refererURL cookies body) = g"
  by (simp add: newHttpRequest_def Let_def split: option.splits)

lemma build_and_request_leaves_instance:
  "snd (build_and_request env g meth target refererURL cookies body) = g"
  using newHttpRequest_leaves_instance [of env g meth target refererURL cookies body]
  by (auto simp add: build_and_request_def split: prod.splits sum.splits)

lemma GetUtil_leaves_instance: "snd (GetUtil env g target refererURL cookies) = g"
  by (simp add: GetUtil_def build_and_request_leaves_instance split: option.splits)

lemma PostUtil_store:
  "snd (PostUtil env (Some gs) target refererURL cookies postMap) =
     Some (if map_of (safeHeaders gs) ''Content-Type'' = None
           then gs\<lparr>safeHeaders := AList.update ''Content-Type''
                  ''application/x-www-form-urlencoded; charset=utf-8'' (safeHeaders gs)\<rparr>
           else gs)"
  by (simp add: PostUtil_def Let_def build_and_request_leaves_instance)

lemma PostMultipartFormDataUtil_store:
  "snd (PostMultipartFormDataUtil env (Some gs) target refererURL cookies boundary vals files) =
     (case multipart_Writer env boundary vals files of
        Inl failure \<Rightarrow> Some gs
      | Inr (body, contentType) \<Rightarrow>
          Some (gs\<lparr>safeHeaders := AList.update ''Content-Type'' contentType (safeHeaders gs)\<rparr>))"
proof (cases "multipart_Writer env boundary vals files")
  case (Inl failure)
  then show ?thesis
    by (simp add: PostMultipartFormDataUtil_def split: prod.splits)
next
  case (Inr built)
  obtain body contentType where built: "built = (body, contentType)"
    by (cases built)
  let ?gs' = "gs\<lparr>safeHeaders := AList.update ''Content-Type'' contentType (safeHeaders gs)\<rparr>"
  have "snd (newHttpRequest env (Some ?gs') ''POST'' target refererURL cookies (Some body)) = Some ?gs'"
    by (rule newHttpRequest_leaves_instance)
  then show ?thesis
    using Inr built
    by (auto simp add: PostMultipartFormDataUtil_def Let_def
          split: prod.splits sum.splits option.splits)
qed

text \<open>
  Claim C7, as stated: no exchange operation, GET or POST, mutates the persistent header
  store of its instance. It fails for \<open>PostUtil\<close> on an instance whose store is empty:
  after the call the store holds a \<open>Content-Type\<close>.
\<close>

theorem PostUtil_mutates_store_counterexample:
  "safeHeaders (the (snd (PostUtil offline_env (Some bare_instance) ''http://a/'' '''' '''' []))) \<noteq>
     safeHeaders bare_instance"
  by (simp add: PostUtil_store bare_instance_def)

text \<open>
  Claim C7, amended. Building the request-scoped header set (\<open>newHttpRequest\<close>: the
  store, then the referer, then the cookie string) never changes the instance, and the
  GET operations leave the instance as it was. The POST operations first write a
  \<open>Content-Type\<close> into the persistent store and change nothing else: \<open>PostUtil\<close>,
  \<open>Post\<close>, \<open>PostBytes\<close>, \<open>PostXMLUtil\<close> and \<open>PostJsonUtil\<close> when the store has
  none, \<open>PostMultipartFormDataUtil\<close> whenever the multipart body was built.
\<close>

theorem header_store_frame:
  "snd (newHttpRequest env g meth target refererURL cookies body) = g \<and>
   snd (GetUtil env g target refererURL cookies) = g \<and>
   snd (Get env g target refererURL) = g \<and>
   snd (PostUtil env (Some gs) target refererURL cookies postMap) =
     Some (if map_of (safeHeaders gs) ''Content-Type'' = None
           then gs\<lparr>safeHeaders := AList.update ''Content-Type''
                  ''application/x-www-form-urlencoded; charset=utf-8'' (safeHeaders gs)\<rparr>
           else gs) \<and>
   snd (Post env (Some gs) target refererURL postMap) =
     Some (if map_of (safeHeaders gs) ''Content-Type'' = None
           then gs\<lparr>safeHeaders := AList.update ''Content-Type''
                  ''application/x-www-form-urlencoded; charset=utf-8'' (safeHeaders gs)\<rparr>
           else gs) \<and>
   snd (PostBytes env (Some gs) target refererURL cookies postBytes) =
     Some (if map_of (safeHeaders gs) ''Content-Type'' = None
           then gs\<lparr>safeHeaders := AList.update ''Content-Type''
                  ''application/octet-stream'' (safeHeaders gs)\<rparr>
           else gs) \<and>
   snd (PostXMLUtil env (Some gs) target refererURL cookies postXML) =
     Some (if map_of (safeHeaders gs) ''Content-Type'' = None
           then gs\<lparr>safeHeaders := AList.update ''Content-Type''
                  ''application/xml; charset=utf-8'' (safeHeaders gs)\<rparr>
           else gs) \<and>
   snd (PostJsonUtil env (Some gs) target refererURL cookies postJson) =
     Some (if map_of (safeHeaders gs) ''Content-Type'' = None
           then gs\<lparr>safeHeaders := AList.update ''Content-Type''
                  ''application/json; charset=utf-8'' (safeHeaders gs)\<rparr>
           else gs) \<and>
   snd (PostMultipartFormDataUtil env (Some gs) target refererURL cookies boundary vals files) =
     (case multipart_Writer env boundary vals files of
        Inl failure \<Rightarrow> Some gs
      | Inr (body, contentType) \<Rightarrow>
          Some (gs\<lparr>safeHeaders := AList.update ''Content-Type'' contentType (safeHeaders gs)\<rparr>))"
proof -
  have "snd (Get env g target refererURL) = g"
    by (simp add: Get_def GetUtil_leaves_instance)
  moreover have "snd (Post env (Some gs) target refererURL postMap) =
     Some (if map_of (safeHeaders gs) ''Content-Type'' = None
           then gs\<lparr>safeHeaders := AList.update ''Content-Type''
                  ''application/x-www-form-urlencoded; charset=utf-8'' (safeHeaders gs)\<rparr>
           else gs)"
    by (simp add: Post_def PostUtil_store)
  moreover have "snd (PostBytes env (Some gs) target refererURL cookies postBytes) =
     Some (if map_of (safeHeaders gs) ''Content-Type'' = None
           then gs\<lparr>safeHeaders := AList.update ''Content-Type''
                  ''application/octet-stream'' (safeHeaders gs)\<rparr>
           else gs)"
    by (simp add: PostBytes_def Let_def build_and_request_leaves_instance)
  moreover have "snd (PostXMLUtil env (Some gs) target refererURL cookies postXML) =
     Some (if map_of (safeHeaders gs) ''Content-Type'' = None
           then gs\<lparr>safeHeaders := AList.update ''Content-Type''
                  ''application/xml; charset=utf-8'' (safeHeaders gs)\<rparr>
           else gs)"
    by (simp add: PostXMLUtil_def Let_def build_and_request_leaves_instance)
  moreover have "snd (PostJsonUtil env (Some gs) target refererURL cookies postJson) =
     Some (if map_of (safeHeaders gs) ''Content-Type'' = None
           then gs\<lparr>safeHeaders := AList.update ''Content-Type''
                  ''application/json; charset=utf-8'' (safeHeaders gs)\<rparr>
           else gs)"
    by (simp add: PostJsonUtil_def Let_def build_and_request_leaves_instance)
  ultimately show ?thesis
    using newHttpRequest_leaves_instance [of env g meth target refererURL cookies body]
      GetUtil_leaves_instance [of env g target refererURL cookies]
      PostUtil_store [of env gs target refererURL cookies postMap]
      PostMultipartFormDataUtil_store [of env gs target refererURL cookies boundary vals files]
    by simp
qed

section \<open>Properties of the transport factories\<close>

lemma getHttpTransport_new_go_hit:
  "k \<noteq> '''' \<Longrightarrow> g_transportProxyMap st k = Some a \<Longrightarrow> getHttpTransport_new_go k st = (a, st)"
  by (simp add: getHttpTransport_new_go_def)

lemma getHttpTransport_new_go_keeps:
  "g_transportProxyMap st k = Some a \<Longrightarrow>
     g_transportProxyMap (snd (getHttpTransport_new_go k' st)) k = Some a"
  by (auto simp add: getHttpTransport_new_go_def g_alloc_def Let_def split: option.splits)

lemma getHttpTransport_calls_keep:
  "g_transportProxyMap st k = Some a \<Longrightarrow>
     g_transportProxyMap (getHttpTransport_calls ks st) k = Some a"
  by (induction ks arbitrary: st) (simp_all add: getHttpTransport_new_go_keeps)

lemma getHttpTransport_new_go_stores:
  "k \<noteq> '''' \<Longrightarrow>
     g_transportProxyMap (snd (getHttpTransport_new_go k st)) k = Some (fst (getHttpTransport_new_go k st))"
  by (auto simp add: getHttpTransport_new_go_def g_alloc_def Let_def split: option.splits)

lemma getHttpTransport_fresh:
  "k \<noteq> '''' \<Longrightarrow> globalConfig reg = Some cfg \<Longrightarrow>
     getHttpTransport k reg =
       (Inr (length (transports reg)),
        reg\<lparr>transports := transports reg @ [newTransport cfg (ProxyFromString k)]\<rparr>)"
  by (simp add: getHttpTransport_def alloc_transport_def)

lemma registry1_config: "globalConfig registry1 \<noteq> None"
  unfolding registry1_def UseSlowConnConfig_def
  using timeout_derivation_aux [of "10 * Minute" True True registry0]
  by (auto simp add: Minute_def Second_def)

text \<open>
  Claim C6, as stated: two calls of the transport factory with the same non-empty proxy
  key return the identical transport. It fails for \<open>getHttpTransport\<close> of the registry
  (\<open>part_000\<close>): after the package's \<open>init\<close>, two calls with the key
  \<open>http://127.0.0.1:8080\<close> return two different transports.
\<close>

theorem getHttpTransport_builds_anew_counterexample:
  "fst (getHttpTransport ''http://127.0.0.1:8080'' registry1) \<noteq>
   fst (getHttpTransport ''http://127.0.0.1:8080''
          (snd (getHttpTransport ''http://127.0.0.1:8080'' registry1)))"
proof -
  obtain cfg where "globalConfig registry1 = Some cfg"
    using registry1_config by auto
  then show ?thesis by (simp add: getHttpTransport_fresh)
qed

text \<open>
  Claim C6, amended. In \<open>new.go\<close>, for every non-empty proxy key \<open>k\<close>, a call of the
  factory with \<open>k\<close> that comes after an earlier call with \<open>k\<close>, whatever calls of the
  factory lie between, returns the transport of the earlier call and changes nothing
  (no transport is built; nothing in \<open>new.go\<close> removes an entry of the cache). In the
  registry of \<open>part_000\<close> only the transport without proxy is cached: with a non-empty
  key every call builds a new transport, so that two calls in a row return different
  ones (and the call panics while no configuration is set).
\<close>

theorem transport_cache:
  assumes "k \<noteq> ''''"
  shows "getHttpTransport_new_go k (getHttpTransport_calls ks (snd (getHttpTransport_new_go k st))) =
           (fst (getHttpTransport_new_go k st),
            getHttpTransport_calls ks (snd (getHttpTransport_new_go k st))) \<and>
         (case globalConfig reg of
            None \<Rightarrow> fst (getHttpTransport k reg) = Inl Nil_dereference
          | Some cfg \<Rightarrow>
              fst (getHttpTransport k reg) = Inr (length (transports reg)) \<and>
              fst (getHttpTransport k (snd (getHttpTransport k reg))) = Inr (length (transports reg) + 1))"
proof -
  have "g_transportProxyMap (getHttpTransport_calls ks (snd (getHttpTransport_new_go k st))) k =
          Some (fst (getHttpTransport_new_go k st))"
    using assms by (simp add: getHttpTransport_calls_keep getHttpTransport_new_go_stores)
  then have new_go: "getHttpTransport_new_go k (getHttpTransport_calls ks (snd (getHttpTransport_new_go k st))) =
           (fst (getHttpTransport_new_go k st),
            getHttpTransport_calls ks (snd (getHttpTransport_new_go k st)))"
    using assms by (simp add: getHttpTransport_new_go_hit)
  show ?thesis
  proof (cases "globalConfig reg")
    case None
    then show ?thesis using new_go assms by (simp add: getHttpTransport_def)
  next
    case (Some cfg)
    then show ?thesis using new_go assms by (simp add: getHttpTransport_fresh)
  qed
qed

text \<open>
  The theorem at the key \<open>http://127.0.0.1:8080\<close>, with a call without proxy and a call
  with another proxy in between: the first transport built, at address 0, is returned
  again.
\<close>

theorem transport_cache_witness:
  "''http://127.0.0.1:8080'' \<noteq> '''' \<and>
   fst (getHttpTransport_new_go ''http://127.0.0.1:8080''
          (getHttpTransport_calls ['''', ''http://10.0.0.1:3128'']
             (snd (getHttpTransport_new_go ''http://127.0.0.1:8080'' globals0)))) = 0"
proof -
  have ne: "''http://127.0.0.1:8080'' \<noteq> ''''" by simp
  have first: "fst (getHttpTransport_new_go ''http://127.0.0.1:8080'' globals0) = 0"
    by (simp add: getHttpTransport_new_go_def globals0_def g_alloc_def Let_def)
  show ?thesis
    using transport_cache [OF ne, of "['''', ''http://10.0.0.1:3128'']" globals0 registry0] first
    by simp
qed

lemma ctl_url_does_not_parse:
  "url_Parse env (''http://'' @ [CHR 0x01]) =
     Inl (Stdlib_error ''net/url: invalid control character in URL'')"
  by (simp add: url_Parse_def stringContainsCTLByte_def)

lemma ctl_has_no_http: "\<not> strings_Contains [CHR 0x01] ''http''"
  by code_simp

text \<open>
  The authenticated-proxy path of \<open>part_000\<close> discards the error of the parse: with
  credentials the call panics on the nil URL, without credentials it builds a transport
  whose proxy function is \<open>http.ProxyURL(nil)\<close>, which connects directly.
\<close>

lemma getHttpTransportHasPass_discards_error:
  "fst (getHttpTransportHasPass env [CHR 0x01] ''u'' ''p'' registry1) = Inl Nil_dereference \<and>
   (\<exists>a reg'. getHttpTransportHasPass env [CHR 0x01] '''' '''' registry1 = (Inr a, reg') \<and>
      tr_Proxy (transports reg' ! a) = ProxyURL None)"
proof -
  obtain cfg where "globalConfig registry1 = Some cfg"
    using registry1_config by auto
  then show ?thesis
    using ctl_has_no_http
    by (simp add: getHttpTransportHasPass_def Let_def ctl_url_does_not_parse [simplified]
          alloc_transport_def newTransport_def)
qed

text \<open>
  The authenticated-proxy path of \<open>new.go\<close>: \<open>parseProxyURLWithAuth\<close> reports a proxy
  URL that does not parse as an error and \<open>getHttpTransportHasPass\<close> turns it into a nil
  transport and a log line; \<open>NewGatherUtilHasPass\<close>, which has no error result, then
  writes a second log line and returns an instance whose client has no transport and no
  cookie jar, only the timeout. When the URL parses, the client gets a newly built
  transport and the jar.
\<close>

lemma auth_proxy_construction:
  "(case url_Parse env (if \<not> strings_Contains proxyUrl ''http'' then ''http://'' @ proxyUrl
                         else proxyUrl) of
      Inl err \<Rightarrow>
        parseProxyURLWithAuth env proxyUrl user pass =
          Inl (Wrapped (Parse_proxy_url_failed
                 (if \<not> strings_Contains proxyUrl ''http'' then ''http://'' @ proxyUrl else proxyUrl))
                 err) \<and>
        getHttpTransportHasPass_new_go env proxyUrl user pass st =
          (None, st\<lparr>g_log := g_log st @ [Parse_auth_proxy_url_failed_line]\<rparr>) \<and>
        Client (fst (NewGatherUtilHasPass_new_go env headers proxyUrl user pass timeOut lg st)) =
          Some \<lparr>cl_Transport = None, cl_Jar = None,
                cl_Timeout = (if timeOut \<le> 0 then 0 else wrap64 (timeOut * Second))\<rparr> \<and>
        snd (NewGatherUtilHasPass_new_go env headers proxyUrl user pass timeOut lg st) =
          st\<lparr>g_log := g_log st @ [Parse_auth_proxy_url_failed_line,
                                   Create_auth_proxy_transport_failed_use_basic_client]\<rparr>
    | Inr u \<Rightarrow>
        fst (getHttpTransportHasPass_new_go env proxyUrl user pass st) =
          Some (length (g_transports st)) \<and>
        Client (fst (NewGatherUtilHasPass_new_go env headers proxyUrl user pass timeOut lg st)) =
          Some \<lparr>cl_Transport = Some (length (g_transports st)), cl_Jar = Some (newWebCookieJar lg),
                cl_Timeout = (if timeOut \<le> 0 then 0 else wrap64 (timeOut * Second))\<rparr>)"
  by (simp add: NewGatherUtilHasPass_new_go_def getHttpTransportHasPass_new_go_def
        parseProxyURLWithAuth_def g_alloc_def Let_def split: sum.splits)

text \<open>
  So in \<open>new.go\<close> the caller can detect the failure, for every proxy URL, user and
  password: the client of the returned instance has a nil transport exactly when the
  proxy URL did not parse.
\<close>

lemma NewGatherUtilHasPass_new_go_detectable:
  "\<exists>c. Client (fst (NewGatherUtilHasPass_new_go env headers proxyUrl user pass timeOut lg st)) = Some c \<and>
       (cl_Transport c = None \<longleftrightarrow>
          (\<exists>err. url_Parse env (if \<not> strings_Contains proxyUrl ''http'' then ''http://'' @ proxyUrl
                                  else proxyUrl) = Inl err))"
  using auth_proxy_construction [of env proxyUrl user pass st headers timeOut lg]
  by (auto split: sum.splits)

lemma NewGatherUtilHasPass_new_go_basic_client:
  "Client (fst (NewGatherUtilHasPass_new_go offline_env [] [CHR 0x01] ''u'' ''p'' 30 False globals0)) =
     Some \<lparr>cl_Transport = None, cl_Jar = None, cl_Timeout = 30000000000\<rparr>"
  using ctl_has_no_http
  by (simp add: ctl_url_does_not_parse [simplified] NewGatherUtilHasPass_new_go_def
        getHttpTransportHasPass_new_go_def parseProxyURLWithAuth_def Let_def wrap64_def Second_def)

text \<open>
  Claim C8. On the authenticated-proxy path a proxy URL that does not parse is reported
  to the caller, not swallowed, and construction never silently yields a client that
  does not work: for every proxy URL, user and password the caller can detect the
  failure. \<open>new.go\<close> does this (\<open>NewGatherUtilHasPass_new_go_detectable\<close>). The
  constructor of \<open>part_000\<close> does not: \<open>getHttpTransportHasPass\<close> discards the error of
  the parse. The proxy address consisting of the control byte 0x01 does not parse; with
  a user and a password \<open>NewGatherUtilHasPass\<close> then panics on the nil URL, and without
  them it returns an instance like any other, with a client, a transport and a jar,
  whose transport has the proxy \<open>http.ProxyURL(nil)\<close>, that is, no proxy at all.
\<close>

theorem NewGatherUtilHasPass_discards_parse_error:
  "url_Parse offline_env (''http://'' @ [CHR 0x01]) =
     Inl (Stdlib_error ''net/url: invalid control character in URL'') \<and>
   fst (NewGatherUtilHasPass offline_env [] [CHR 0x01] ''u'' ''p'' 30 False registry1) =
     Inl Nil_dereference \<and>
   (\<exists>g reg' a. NewGatherUtilHasPass offline_env [] [CHR 0x01] '''' '''' 30 False registry1 = (Inr g, reg') \<and>
      Client g = Some \<lparr>cl_Transport = Some a, cl_Jar = Some (newWebCookieJar False),
                       cl_Timeout = 30000000000\<rparr> \<and>
      a < length (transports reg') \<and>
      tr_Proxy (transports reg' ! a) = ProxyURL None)"
proof -
  obtain cfg where "globalConfig registry1 = Some cfg"
    using registry1_config by auto
  then show ?thesis
    using ctl_has_no_http
    by (simp add: NewGatherUtilHasPass_def getHttpTransportHasPass_def Let_def
          ctl_url_does_not_parse [simplified] alloc_transport_def newTransport_def
          wrap64_def Second_def)
qed

section \<open>Properties of pool construction\<close>

lemma has_profile_newTransport: "has_profile c (newTransport c p)"
  by (simp add: has_profile_def newTransport_def)

lemma has_profile_resize:
  "has_profile c t \<Longrightarrow> has_profile c (t\<lparr>tr_MaxIdleConns := m, tr_MaxIdleConnsPerHost := h\<rparr>)"
  by (simp add: has_profile_def)

lemma sized_resize: "sized m h (t\<lparr>tr_MaxIdleConns := m, tr_MaxIdleConnsPerHost := h\<rparr>)"
  by (simp add: sized_def)

lemma getHttpTransport_consistent:
  assumes "consistent c reg"
  shows "\<exists>a reg'. getHttpTransport proxyURL reg = (Inr a, reg') \<and> consistent c reg' \<and>
           a < length (transports reg') \<and> has_profile c (transports reg' ! a) \<and>
           length (transports reg) \<le> length (transports reg') \<and>
           (\<forall>b < length (transports reg). transports reg' ! b = transports reg ! b) \<and>
           transportNoProxy reg' = (if proxyURL = '''' then Some a else transportNoProxy reg) \<and>
           (transportNoProxy reg = Some a \<or> a = length (transports reg))"
  using assms
  by (auto simp add: getHttpTransport_def consistent_def alloc_transport_def Let_def nth_append
        has_profile_newTransport split: option.splits)

text \<open>
  One instance of a pool: the call returns, the registry stays consistent, the new
  instance is sized, and every transport that was sized before still is.
\<close>

lemma new_instance:
  assumes "consistent c reg" and "fresh_cache L reg"
  shows "\<exists>ga reg'. newGatherUtilWithCustomConfig headers proxyURL timeOut lg m cfg reg = (Inr ga, reg') \<and>
           consistent c reg' \<and> fresh_cache L reg' \<and>
           instance_ok c m (per_host_budget m (MaxIdleConnsPerHostRatio cfg)) reg' ga \<and>
           length (transports reg) \<le> length (transports reg') \<and>
           (\<forall>b < length (transports reg).
              has_profile c (transports reg ! b) \<and>
              sized m (per_host_budget m (MaxIdleConnsPerHostRatio cfg)) (transports reg ! b) \<longrightarrow>
              has_profile c (transports reg' ! b) \<and>
              sized m (per_host_budget m (MaxIdleConnsPerHostRatio cfg)) (transports reg' ! b)) \<and>
           (proxyURL \<noteq> '''' \<longrightarrow> transportNoProxy reg' = transportNoProxy reg) \<and>
           (proxyURL = '''' \<longrightarrow> transportNoProxy reg' \<noteq> None)"
proof -
  let ?h = "per_host_budget m (MaxIdleConnsPerHostRatio cfg)"
  obtain a reg1 where g: "getHttpTransport proxyURL reg = (Inr a, reg1)"
    and c1: "consistent c reg1" and a: "a < length (transports reg1)"
    and p: "has_profile c (transports reg1 ! a)"
    and len: "length (transports reg) \<le> length (transports reg1)"
    and same: "\<forall>b < length (transports reg). transports reg1 ! b = transports reg ! b"
    and cache: "transportNoProxy reg1 = (if proxyURL = '''' then Some a else transportNoProxy reg)"
    and fresh: "transportNoProxy reg = Some a \<or> a = length (transports reg)"
    using getHttpTransport_consistent [OF assms(1), of proxyURL] by blast
  let ?t = "(transports reg1 ! a)\<lparr>tr_MaxIdleConns := m, tr_MaxIdleConnsPerHost := ?h\<rparr>"
  let ?reg2 = "reg1\<lparr>transports := (transports reg1)[a := ?t]\<rparr>"
  let ?ga = "\<lparr>Client = Some \<lparr>cl_Transport = Some a, cl_Jar = Some (newWebCookieJar lg),
                 cl_Timeout = wrap64 (timeOut * Second)\<rparr>,
               Headers = headers, safeHeaders = headers, J = Some (newWebCookieJar lg)\<rparr>"
  have h_eq: "(if int_of_float64 (float64_mul (float64_of_int m) (MaxIdleConnsPerHostRatio cfg)) \<le> 0 then 1
               else int_of_float64 (float64_mul (float64_of_int m) (MaxIdleConnsPerHostRatio cfg))) = ?h"
    by (simp add: max_def per_host_budget_def)
  have run: "newGatherUtilWithCustomConfig headers proxyURL timeOut lg m cfg reg = (Inr ?ga, ?reg2)"
    using g by (simp add: newGatherUtilWithCustomConfig_def Let_def h_eq)
  have c2: "consistent c ?reg2"
    using c1 a p by (auto simp add: consistent_def nth_list_update has_profile_resize split: option.splits)
  have f2: "fresh_cache L ?reg2"
    using assms(2) len cache fresh by (auto simp add: fresh_cache_def split: option.splits if_splits)
  have t2: "instance_ok c m ?h ?reg2 ?ga"
    using a p by (simp add: instance_ok_def transport_of_def has_profile_resize sized_resize)
  have pres: "\<forall>b < length (transports reg).
      has_profile c (transports reg ! b) \<and> sized m ?h (transports reg ! b) \<longrightarrow>
      has_profile c (transports ?reg2 ! b) \<and> sized m ?h (transports ?reg2 ! b)"
    using same len a by (auto simp add: nth_list_update has_profile_resize sized_resize)
  have "length (transports reg) \<le> length (transports ?reg2)"
    using len by simp
  moreover have "proxyURL \<noteq> '''' \<longrightarrow> transportNoProxy ?reg2 = transportNoProxy reg"
    using cache by simp
  moreover have "proxyURL = '''' \<longrightarrow> transportNoProxy ?reg2 \<noteq> None"
    using cache by simp
  ultimately show ?thesis
    using run c2 f2 t2 pres by blast
qed

lemma instance_ok_later:
  assumes "instance_ok c m h reg g"
    and "length (transports reg) \<le> length (transports reg')"
    and "\<forall>b < length (transports reg).
           has_profile c (transports reg ! b) \<and> sized m h (transports reg ! b) \<longrightarrow>
           has_profile c (transports reg' ! b) \<and> sized m h (transports reg' ! b)"
  shows "instance_ok c m h reg' g"
  using assms
  by (auto simp add: instance_ok_def transport_of_def split: option.splits if_splits)

lemma build_instances_ok:
  assumes "consistent c reg" and "fresh_cache L reg"
  shows "\<exists>gas reg'. build_instances n headers proxyURL timeOut lg m cfg reg = (Inr gas, reg') \<and>
           consistent c reg' \<and> fresh_cache L reg' \<and> length gas = n \<and>
           (\<forall>g \<in> set gas. instance_ok c m (per_host_budget m (MaxIdleConnsPerHostRatio cfg)) reg' g) \<and>
           length (transports reg) \<le> length (transports reg') \<and>
           (\<forall>b < length (transports reg).
              has_profile c (transports reg ! b) \<and>
              sized m (per_host_budget m (MaxIdleConnsPerHostRatio cfg)) (transports reg ! b) \<longrightarrow>
              has_profile c (transports reg' ! b) \<and>
              sized m (per_host_budget m (MaxIdleConnsPerHostRatio cfg)) (transports reg' ! b)) \<and>
           (proxyURL \<noteq> '''' \<longrightarrow> transportNoProxy reg' = transportNoProxy reg) \<and>
           (proxyURL = '''' \<and> 0 < n \<longrightarrow> transportNoProxy reg' \<noteq> None)"
  using assms
proof (induction n arbitrary: reg)
  case 0
  then show ?case by simp
next
  case (Suc n)
  let ?h = "per_host_budget m (MaxIdleConnsPerHostRatio cfg)"
  obtain ga reg1 where run1: "newGatherUtilWithCustomConfig headers proxyURL timeOut lg m cfg reg = (Inr ga, reg1)"
    and c1: "consistent c reg1" and f1: "fresh_cache L reg1"
    and ok1: "instance_ok c m ?h reg1 ga"
    and len1: "length (transports reg) \<le> length (transports reg1)"
    and pres1: "\<forall>b < length (transports reg).
              has_profile c (transports reg ! b) \<and> sized m ?h (transports reg ! b) \<longrightarrow>
              has_profile c (transports reg1 ! b) \<and> sized m ?h (transports reg1 ! b)"
    and px1: "proxyURL \<noteq> '''' \<longrightarrow> transportNoProxy reg1 = transportNoProxy reg"
    and np1: "proxyURL = '''' \<longrightarrow> transportNoProxy reg1 \<noteq> None"
    using new_instance [OF Suc.prems, of headers proxyURL timeOut lg m cfg] by blast
  obtain gas reg2 where run2: "build_instances n headers proxyURL timeOut lg m cfg reg1 = (Inr gas, reg2)"
    and c2: "consistent c reg2" and f2: "fresh_cache L reg2" and n2: "length gas = n"
    and ok2: "\<forall>g \<in> set gas. instance_ok c m ?h reg2 g"
    and len2: "length (transports reg1) \<le> length (transports reg2)"
    and pres2: "\<forall>b < length (transports reg1).
              has_profile c (transports reg1 ! b) \<and> sized m ?h (transports reg1 ! b) \<longrightarrow>
              has_profile c (transports reg2 ! b) \<and> sized m ?h (transports reg2 ! b)"
    and px2: "proxyURL \<noteq> '''' \<longrightarrow> transportNoProxy reg2 = transportNoProxy reg1"
    and np2: "proxyURL = '''' \<and> 0 < n \<longrightarrow> transportNoProxy reg2 \<noteq> None"
    using Suc.IH [OF c1 f1] by blast
  have run: "build_instances (Suc n) headers proxyURL timeOut lg m cfg reg = (Inr (ga # gas), reg2)"
    using run1 run2 by simp
  have okga: "instance_ok c m ?h reg2 ga"
    using instance_ok_later [OF ok1 len2 pres2] .
  have all: "\<forall>g \<in> set (ga # gas). instance_ok c m ?h reg2 g"
    using okga ok2 by simp
  have len: "length (transports reg) \<le> length (transports reg2)"
    using len1 len2 by simp
  have pres: "\<forall>b < length (transports reg).
              has_profile c (transports reg ! b) \<and> sized m ?h (transports reg ! b) \<longrightarrow>
              has_profile c (transports reg2 ! b) \<and> sized m ?h (transports reg2 ! b)"
    using pres1 pres2 len1 by (meson less_le_trans)
  have px: "proxyURL \<noteq> '''' \<longrightarrow> transportNoProxy reg2 = transportNoProxy reg"
    using px1 px2 by simp
  have np: "proxyURL = '''' \<and> 0 < Suc n \<longrightarrow> transportNoProxy reg2 \<noteq> None"
  proof (cases "0 < n")
    case True
    then show ?thesis using np2 by simp
  next
    case False
    then have "n = 0" by simp
    then have "reg2 = reg1" using run2 by simp
    then show ?thesis using np1 by simp
  qed
  have "length (ga # gas) = Suc n" using n2 by simp
  then show ?case
    using run c2 f2 all len pres px np by blast
qed

lemma SetGatherConfigByClientTimeout_installs:
  assumes "0 < T"
  shows "\<exists>cfg. SetGatherConfigByClientTimeout T isSlowConn tlsInsecure reg =
           (None, reg\<lparr>transportNoProxy := None, globalConfig := Some cfg\<rparr>)"
proof -
  have "SetGatherConfigByClientTimeout T isSlowConn tlsInsecure reg =
          (None, reg\<lparr>transportNoProxy := None, globalConfig :=
             Some (the (globalConfig (snd (SetGatherConfigByClientTimeout T isSlowConn tlsInsecure reg))))\<rparr>)"
    using assms
    by (simp add: SetGatherConfigByClientTimeout_def SetGatherConfig_def errMsgs_def Let_def
          Second_def Millisecond_def)
  then show ?thesis by blast
qed

lemma adjustPoolSize_clamp: "1 \<le> M \<Longrightarrow> adjustPoolSize num M = min (max num 1) M"
  by (simp add: adjustPoolSize_def)

lemma getValidatedConfig_fields:
  "1 \<le> MaxPoolSize (getValidatedConfig cfg) \<and>
   pool_MaxIdleConns (getValidatedConfig cfg) = pool_MaxIdleConns cfg \<and>
   IsUseSemaphore (getValidatedConfig cfg) = IsUseSemaphore cfg"
  by (simp add: getValidatedConfig_def Let_def defaultPoolConfig_def)

lemma getValidatedConfig_default: "getValidatedConfig defaultPoolConfig = defaultPoolConfig"
  by (simp add: getValidatedConfig_def Let_def defaultPoolConfig_def ratio_0_2_def)

text \<open>
  Building the pool in a consistent registry: the call returns a pool of the clamped size
  whose instances are all sized, all entries of the free table are set, the semaphore is
  full, and the registry stays consistent.
\<close>

lemma build_pool_ok:
  assumes "consistent c reg" and "fresh_cache L reg" and "1 \<le> MaxPoolSize cfg"
  shows "\<exists>p reg'. build_pool headers proxyURL timeOut lg num cfg reg = (Inr p, reg') \<and>
           consistent c reg' \<and> fresh_cache L reg' \<and>
           int (length (pool p)) = min (max num 1) (MaxPoolSize cfg) \<and>
           (\<forall>g \<in> set (pool p).
              instance_ok c (if pool_MaxIdleConns cfg = 0 then int (length (pool p)) else pool_MaxIdleConns cfg)
                (per_host_budget
                   (if pool_MaxIdleConns cfg = 0 then int (length (pool p)) else pool_MaxIdleConns cfg)
                   (MaxIdleConnsPerHostRatio cfg)) reg' g) \<and>
           unUsed p = (\<lambda>i. if i < length (pool p) then Some True else None) \<and>
           sem p = (if IsUseSemaphore cfg then Some (length (pool p), length (pool p)) else None) \<and>
           config p = cfg \<and>
           (proxyURL \<noteq> '''' \<longrightarrow> transportNoProxy reg' = transportNoProxy reg) \<and>
           (proxyURL = '''' \<longrightarrow> transportNoProxy reg' \<noteq> None)"
proof -
  let ?n = "adjustPoolSize num (MaxPoolSize cfg)"
  let ?m = "if pool_MaxIdleConns cfg = 0 then ?n else pool_MaxIdleConns cfg"
  have n_eq: "?n = min (max num 1) (MaxPoolSize cfg)"
    using assms(3) by (rule adjustPoolSize_clamp)
  have n_pos: "1 \<le> ?n"
    using assms(3) n_eq by simp
  obtain gas reg' where run: "build_instances (nat ?n) headers proxyURL timeOut lg ?m cfg reg = (Inr gas, reg')"
    and c: "consistent c reg'" and f: "fresh_cache L reg'" and len: "length gas = nat ?n"
    and ok: "\<forall>g \<in> set gas. instance_ok c ?m (per_host_budget ?m (MaxIdleConnsPerHostRatio cfg)) reg' g"
    and px: "proxyURL \<noteq> '''' \<longrightarrow> transportNoProxy reg' = transportNoProxy reg"
    and np: "proxyURL = '''' \<and> 0 < nat ?n \<longrightarrow> transportNoProxy reg' \<noteq> None"
    using build_instances_ok [OF assms(1) assms(2), of "nat ?n" headers proxyURL timeOut lg ?m cfg]
    by blast
  let ?p = "\<lparr>unUsed = (\<lambda>i. if i < nat ?n then Some True else None), pool = gas,
             sem = (if IsUseSemaphore cfg then Some (nat ?n, nat ?n) else None), config = cfg\<rparr>"
  have res: "build_pool headers proxyURL timeOut lg num cfg reg = (Inr ?p, reg')"
    using run n_pos by (simp add: build_pool_def Let_def)
  have ilen: "int (length gas) = ?n"
    using len n_pos by simp
  have "int (length (pool ?p)) = min (max num 1) (MaxPoolSize cfg)"
    using ilen n_eq by simp
  moreover have "\<forall>g \<in> set (pool ?p).
      instance_ok c (if pool_MaxIdleConns cfg = 0 then int (length (pool ?p)) else pool_MaxIdleConns cfg)
        (per_host_budget
           (if pool_MaxIdleConns cfg = 0 then int (length (pool ?p)) else pool_MaxIdleConns cfg)
           (MaxIdleConnsPerHostRatio cfg)) reg' g"
    using ok ilen by (cases "pool_MaxIdleConns cfg = 0") auto
  moreover have "unUsed ?p = (\<lambda>i. if i < length (pool ?p) then Some True else None)"
    using len by simp
  moreover have "sem ?p = (if IsUseSemaphore cfg then Some (length (pool ?p), length (pool ?p)) else None)"
    using len by simp
  moreover have "config ?p = cfg" by simp
  moreover have "proxyURL = '''' \<longrightarrow> transportNoProxy reg' \<noteq> None"
    using np n_pos by simp
  ultimately show ?thesis
    using res c f px by blast
qed

lemma NewGatherUtil_consistent:
  assumes "consistent c reg"
  shows "\<exists>g reg' t. NewGatherUtil env hs px t' lg' reg = (Inr g, reg') \<and>
           transport_of reg' g = Some t \<and> has_profile c t"
proof -
  obtain a reg1 where "getHttpTransport px reg = (Inr a, reg1)"
    and "a < length (transports reg1)" and "has_profile c (transports reg1 ! a)"
    using getHttpTransport_consistent [OF assms, of px] by blast
  then show ?thesis
    by (simp add: NewGatherUtil_def Let_def transport_of_def)
qed

text \<open>
  What both constructors do when the timeout is accepted: the fast profile derived from
  \<open>timeOut\<close> becomes the active configuration, the cached transport without proxy is
  dropped, and the pool is built in the registry this leaves.
\<close>

lemma constructor_ok:
  assumes "0 < wrap64 (timeOut * Second)" and "1 \<le> MaxPoolSize cfg"
  shows "\<exists>fast p reg'.
           SetGatherConfigByClientTimeout (wrap64 (timeOut * Second)) False True reg =
             (None, reg\<lparr>transportNoProxy := None, globalConfig := Some fast\<rparr>) \<and>
           build_pool headers proxyURL timeOut lg num cfg
             (reg\<lparr>transportNoProxy := None, globalConfig := Some fast\<rparr>) = (Inr p, reg') \<and>
           consistent fast reg' \<and> fresh_cache (length (transports reg)) reg' \<and>
           int (length (pool p)) = min (max num 1) (MaxPoolSize cfg) \<and>
           (\<forall>g \<in> set (pool p).
              instance_ok fast
                (if pool_MaxIdleConns cfg = 0 then int (length (pool p)) else pool_MaxIdleConns cfg)
                (per_host_budget
                   (if pool_MaxIdleConns cfg = 0 then int (length (pool p)) else pool_MaxIdleConns cfg)
                   (MaxIdleConnsPerHostRatio cfg)) reg' g) \<and>
           (proxyURL \<noteq> '''' \<longrightarrow> transportNoProxy reg' = None) \<and>
           (proxyURL = '''' \<longrightarrow> transportNoProxy reg' \<noteq> None)"
proof -
  obtain fast where set: "SetGatherConfigByClientTimeout (wrap64 (timeOut * Second)) False True reg =
             (None, reg\<lparr>transportNoProxy := None, globalConfig := Some fast\<rparr>)"
    using SetGatherConfigByClientTimeout_installs [OF assms(1)] by blast
  let ?reg1 = "reg\<lparr>transportNoProxy := None, globalConfig := Some fast\<rparr>"
  have c1: "consistent fast ?reg1" by (simp add: consistent_def)
  have f1: "fresh_cache (length (transports reg)) ?reg1" by (simp add: fresh_cache_def)
  obtain p reg' where b: "build_pool headers proxyURL timeOut lg num cfg ?reg1 = (Inr p, reg')"
    and c: "consistent fast reg'" and f: "fresh_cache (length (transports reg)) reg'"
    and n: "int (length (pool p)) = min (max num 1) (MaxPoolSize cfg)"
    and ok: "\<forall>g \<in> set (pool p).
              instance_ok fast
                (if pool_MaxIdleConns cfg = 0 then int (length (pool p)) else pool_MaxIdleConns cfg)
                (per_host_budget
                   (if pool_MaxIdleConns cfg = 0 then int (length (pool p)) else pool_MaxIdleConns cfg)
                   (MaxIdleConnsPerHostRatio cfg)) reg' g"
    and px: "proxyURL \<noteq> '''' \<longrightarrow> transportNoProxy reg' = transportNoProxy ?reg1"
    and np: "proxyURL = '''' \<longrightarrow> transportNoProxy reg' \<noteq> None"
    using build_pool_ok [OF c1 f1 assms(2), of headers proxyURL timeOut lg num] by blast
  have px': "proxyURL \<noteq> '''' \<longrightarrow> transportNoProxy reg' = None"
    using px by simp
  show ?thesis
    apply (rule exI [where x = fast])
    apply (rule exI [where x = p])
    apply (rule exI [where x = reg'])
    using set b c f n ok px' np
    apply (intro conjI)
           apply assumption+
    done
qed

lemma NewGatherUtilPoolWithConfig_unfold:
  "SetGatherConfigByClientTimeout (wrap64 (timeOut * Second)) False True reg = (None, reg1) \<Longrightarrow>
     NewGatherUtilPoolWithConfig headers proxyURL timeOut lg num cfg reg =
       build_pool headers proxyURL timeOut lg num (getValidatedConfig cfg) reg1"
  by (simp add: NewGatherUtilPoolWithConfig_def initFastConfigByTimeout_def)

lemma NewGatherUtilPool_unfold:
  "SetGatherConfigByClientTimeout (wrap64 (timeOut * Second)) False True reg = (None, reg1) \<Longrightarrow>
     NewGatherUtilPool headers proxyURL timeOut lg num reg =
       build_pool headers proxyURL timeOut lg num defaultPoolConfig reg1"
  by (simp add: NewGatherUtilPool_def initFastConfigByTimeout_def)

text \<open>
  With a timeout whose nanoseconds are not a positive \<open>int64\<close> (every \<open>timeOut \<le> 0\<close>),
  both constructors panic in \<open>initFastConfigByTimeout\<close> and leave the registry as it was.
\<close>

lemma constructor_rejects_timeout:
  assumes "wrap64 (timeOut * Second) \<le> 0"
  shows "NewGatherUtilPool headers proxyURL timeOut lg num reg =
           (Inl TotalTimeout_not_positive, reg)"
    and "NewGatherUtilPoolWithConfig headers proxyURL timeOut lg num cfg reg =
           (Inl TotalTimeout_not_positive, reg)"
  using assms
  by (simp_all add: NewGatherUtilPool_def NewGatherUtilPoolWithConfig_def
        initFastConfigByTimeout_def SetGatherConfigByClientTimeout_def)

text \<open>
  What \<open>getValidatedConfig\<close> keeps of the two fields the size of a pool depends on: a
  positive \<open>MaxPoolSize\<close> and a ratio in \<open>(0, 1]\<close> are kept, anything else is replaced
  by the defaults 100 and 0.2.
\<close>

lemma getValidatedConfig_values:
  "MaxPoolSize (getValidatedConfig cfg) = (if MaxPoolSize cfg \<le> 0 then 100 else MaxPoolSize cfg)"
  "MaxIdleConnsPerHostRatio (getValidatedConfig cfg) =
     (if float64_le_zero (MaxIdleConnsPerHostRatio cfg) \<or> float64_gt_one (MaxIdleConnsPerHostRatio cfg)
      then ratio_0_2 else MaxIdleConnsPerHostRatio cfg)"
  by (simp_all add: getValidatedConfig_def Let_def defaultPoolConfig_def)

text \<open>
  The per-host budget as a number: with the default ratio it is a fifth of the size,
  rounded down; with a ratio \<open>M * 2 ^ -k\<close> in \<open>(0, 1]\<close> it is within one and the
  fraction \<open>2 ^ -51\<close> of the size times the ratio.
\<close>

lemma per_host_default:
  assumes "0 < n" and "n < 2 ^ 51"
  shows "int_of_float64 (float64_mul (float64_of_int n) ratio_0_2) = n div 5"
  using scale_duration_0_2 [OF assms] by (simp add: scale_duration_def)

lemma per_host_near:
  fixes n M :: int and k :: nat
  assumes n: "0 < n" "n < 2 ^ 62" and M: "0 < M" "M < 2 ^ 53" "M \<le> 2 ^ k" and k: "k \<le> 1000"
  defines "D \<equiv> int_of_float64 (float64_mul (float64_of_int n) (Finite M (- int k)))"
  shows "2 ^ 51 * (D * 2 ^ k) \<le> (2 ^ 51 + 1) * (M * n)"
    and "(2 ^ 51 - 1) * (M * n) < 2 ^ 51 * ((D + 1) * 2 ^ k)"
proof -
  define X Y Z where "X = D * 2 ^ k" and "Y = M * n" and "Z = (D + 1) * 2 ^ k"
  have n63: "n < 2 ^ 63" using n(2) by simp
  have "M * n \<le> 2 ^ k * 2 ^ 62" using n M by (intro mult_mono) simp_all
  then have range: "2 * (M * n) \<le> 2 ^ 63 * 2 ^ k" by simp
  have Y: "0 < Y" using n(1) M(1) by (simp add: Y_def)
  have "2 ^ 106 * X \<le> (2 ^ 53 + 1) * ((2 ^ 53 + 1) * Y)"
    unfolding X_def Y_def D_def by (rule float64_product_bounds(2) [OF n(1) n63 M(1,2) k range])
  then have "2 ^ 51 * X \<le> (2 ^ 51 + 1) * Y" using Y by simp
  then show "2 ^ 51 * (D * 2 ^ k) \<le> (2 ^ 51 + 1) * (M * n)" by (simp only: X_def Y_def)
  have "(2 ^ 53 - 1) * ((2 ^ 53 - 1) * Y) < 2 ^ 106 * Z"
    unfolding Z_def Y_def D_def by (rule float64_product_bounds(3) [OF n(1) n63 M(1,2) k range])
  then have "(2 ^ 51 - 1) * Y < 2 ^ 51 * Z" using Y by simp
  then show "(2 ^ 51 - 1) * (M * n) < 2 ^ 51 * ((D + 1) * 2 ^ k)" by (simp only: Z_def Y_def)
qed

text \<open>
  Claim C4. A pool constructed with desired size \<open>num\<close> has exactly
  \<open>min (max num 1) MaxPoolSize\<close> instances, \<open>MaxPoolSize\<close> being the configured maximum
  (a maximum that is not positive counts as 100, and \<open>NewGatherUtilPool\<close> takes 100);
  when the configured \<open>MaxIdleConns\<close> is 0, the transport of every instance has
  \<open>MaxIdleConns\<close> equal to the pool size and \<open>MaxIdleConnsPerHost\<close> equal to the pool
  size times the configured ratio (a ratio outside \<open>(0, 1]\<close> counts as 0.2), truncated,
  and at least 1. The product is the \<open>float64\<close> product of the source: for a ratio
  \<open>M * 2 ^ -k\<close> it is within one and the fraction \<open>2 ^ -51\<close> of the exact product, and
  with the ratio 0.2 of \<open>NewGatherUtilPool\<close> it is the size divided by 5. The
  constructors return when the \<open>timeOut\<close> argument, in nanoseconds, is a positive
  \<open>int64\<close>; they panic otherwise.
\<close>

theorem pool_construction_size:
  assumes "0 < wrap64 (timeOut * Second)"
  shows "(\<exists>p reg' size ratio.
            NewGatherUtilPoolWithConfig headers proxyURL timeOut lg num cfg reg = (Inr p, reg') \<and>
            size = min (max num 1) (if MaxPoolSize cfg \<le> 0 then 100 else MaxPoolSize cfg) \<and>
            ratio = (if float64_le_zero (MaxIdleConnsPerHostRatio cfg) \<or>
                        float64_gt_one (MaxIdleConnsPerHostRatio cfg)
                     then ratio_0_2 else MaxIdleConnsPerHostRatio cfg) \<and>
            int (length (pool p)) = size \<and>
            (pool_MaxIdleConns cfg = 0 \<longrightarrow>
               (\<forall>g \<in> set (pool p). \<exists>t. transport_of reg' g = Some t \<and>
                  tr_MaxIdleConns t = size \<and>
                  tr_MaxIdleConnsPerHost t =
                    max 1 (int_of_float64 (float64_mul (float64_of_int size) ratio)))) \<and>
            (\<forall>M k. ratio = Finite M (- int k) \<and> 0 < M \<and> M < 2 ^ 53 \<and> M \<le> 2 ^ k \<and> k \<le> 1000 \<and>
                   num < 2 ^ 62 \<longrightarrow>
               2 ^ 51 * (int_of_float64 (float64_mul (float64_of_int size) ratio) * 2 ^ k)
                 \<le> (2 ^ 51 + 1) * (M * size) \<and>
               (2 ^ 51 - 1) * (M * size)
                 < 2 ^ 51 * ((int_of_float64 (float64_mul (float64_of_int size) ratio) + 1) * 2 ^ k))) \<and>
         (\<exists>p reg' size.
            NewGatherUtilPool headers proxyURL timeOut lg num reg = (Inr p, reg') \<and>
            size = min (max num 1) 100 \<and>
            int (length (pool p)) = size \<and>
            (\<forall>g \<in> set (pool p). \<exists>t. transport_of reg' g = Some t \<and>
               tr_MaxIdleConns t = size \<and>
               tr_MaxIdleConnsPerHost t = max 1 (size div 5)))"
proof (rule conjI)
  let ?cfg = "getValidatedConfig cfg"
  let ?size = "min (max num 1) (if MaxPoolSize cfg \<le> 0 then 100 else MaxPoolSize cfg)"
  let ?ratio = "if float64_le_zero (MaxIdleConnsPerHostRatio cfg) \<or>
                   float64_gt_one (MaxIdleConnsPerHostRatio cfg)
                then ratio_0_2 else MaxIdleConnsPerHostRatio cfg"
  have m: "1 \<le> MaxPoolSize ?cfg" and z: "pool_MaxIdleConns ?cfg = pool_MaxIdleConns cfg"
    using getValidatedConfig_fields [of cfg] by simp_all
  obtain fast p reg' where s: "SetGatherConfigByClientTimeout (wrap64 (timeOut * Second)) False True reg =
             (None, reg\<lparr>transportNoProxy := None, globalConfig := Some fast\<rparr>)"
    and b: "build_pool headers proxyURL timeOut lg num ?cfg
             (reg\<lparr>transportNoProxy := None, globalConfig := Some fast\<rparr>) = (Inr p, reg')"
    and n: "int (length (pool p)) = min (max num 1) (MaxPoolSize ?cfg)"
    and ok: "\<forall>g \<in> set (pool p).
              instance_ok fast
                (if pool_MaxIdleConns ?cfg = 0 then int (length (pool p)) else pool_MaxIdleConns ?cfg)
                (per_host_budget
                   (if pool_MaxIdleConns ?cfg = 0 then int (length (pool p)) else pool_MaxIdleConns ?cfg)
                   (MaxIdleConnsPerHostRatio ?cfg)) reg' g"
    using constructor_ok [OF assms m, of reg headers proxyURL lg num] by blast
  have run: "NewGatherUtilPoolWithConfig headers proxyURL timeOut lg num cfg reg = (Inr p, reg')"
    using NewGatherUtilPoolWithConfig_unfold [OF s] b by simp
  have size: "int (length (pool p)) = ?size"
    using n by (simp only: getValidatedConfig_values)
  have ratio: "MaxIdleConnsPerHostRatio ?cfg = ?ratio"
    by (simp only: getValidatedConfig_values)
  have sized: "pool_MaxIdleConns cfg = 0 \<longrightarrow>
          (\<forall>g \<in> set (pool p). \<exists>t. transport_of reg' g = Some t \<and>
             tr_MaxIdleConns t = ?size \<and>
             tr_MaxIdleConnsPerHost t =
               max 1 (int_of_float64 (float64_mul (float64_of_int ?size) ?ratio)))"
    using ok z unfolding ratio size
    by (auto simp add: instance_ok_def sized_def per_host_budget_def split: option.splits)
  have near: "\<forall>M k. ?ratio = Finite M (- int k) \<and> 0 < M \<and> M < 2 ^ 53 \<and> M \<le> 2 ^ k \<and> k \<le> 1000 \<and>
                   num < 2 ^ 62 \<longrightarrow>
               2 ^ 51 * (int_of_float64 (float64_mul (float64_of_int ?size) ?ratio) * 2 ^ k)
                 \<le> (2 ^ 51 + 1) * (M * ?size) \<and>
               (2 ^ 51 - 1) * (M * ?size)
                 < 2 ^ 51 * ((int_of_float64 (float64_mul (float64_of_int ?size) ?ratio) + 1) * 2 ^ k)"
  proof (intro allI impI)
    fix M :: int and k :: nat
    assume h: "?ratio = Finite M (- int k) \<and> 0 < M \<and> M < 2 ^ 53 \<and> M \<le> 2 ^ k \<and> k \<le> 1000 \<and>
                   num < 2 ^ 62"
    have pos: "0 < ?size" by (auto simp add: min_def max_def)
    from h have "num < 2 ^ 62" by simp
    then have lt: "?size < 2 ^ 62" by (auto simp add: min_def max_def)
    from h have r: "?ratio = Finite M (- int k)" by (rule conjunct1)
    show "2 ^ 51 * (int_of_float64 (float64_mul (float64_of_int ?size) ?ratio) * 2 ^ k)
                 \<le> (2 ^ 51 + 1) * (M * ?size) \<and>
               (2 ^ 51 - 1) * (M * ?size)
                 < 2 ^ 51 * ((int_of_float64 (float64_mul (float64_of_int ?size) ?ratio) + 1) * 2 ^ k)"
      unfolding r using per_host_near [OF pos lt, of M k] h by blast
  qed
  show "\<exists>p reg' size ratio.
            NewGatherUtilPoolWithConfig headers proxyURL timeOut lg num cfg reg = (Inr p, reg') \<and>
            size = min (max num 1) (if MaxPoolSize cfg \<le> 0 then 100 else MaxPoolSize cfg) \<and>
            ratio = (if float64_le_zero (MaxIdleConnsPerHostRatio cfg) \<or>
                        float64_gt_one (MaxIdleConnsPerHostRatio cfg)
                     then ratio_0_2 else MaxIdleConnsPerHostRatio cfg) \<and>
            int (length (pool p)) = size \<and>
            (pool_MaxIdleConns cfg = 0 \<longrightarrow>
               (\<forall>g \<in> set (pool p). \<exists>t. transport_of reg' g = Some t \<and>
                  tr_MaxIdleConns t = size \<and>
                  tr_MaxIdleConnsPerHost t =
                    max 1 (int_of_float64 (float64_mul (float64_of_int size) ratio)))) \<and>
            (\<forall>M k. ratio = Finite M (- int k) \<and> 0 < M \<and> M < 2 ^ 53 \<and> M \<le> 2 ^ k \<and> k \<le> 1000 \<and>
                   num < 2 ^ 62 \<longrightarrow>
               2 ^ 51 * (int_of_float64 (float64_mul (float64_of_int size) ratio) * 2 ^ k)
                 \<le> (2 ^ 51 + 1) * (M * size) \<and>
               (2 ^ 51 - 1) * (M * size)
                 < 2 ^ 51 * ((int_of_float64 (float64_mul (float64_of_int size) ratio) + 1) * 2 ^ k))"
    apply (rule exI [where x = p])
    apply (rule exI [where x = reg'])
    apply (rule exI [where x = ?size])
    apply (rule exI [where x = ?ratio])
    apply (intro conjI run size sized near refl)
    done
next
  let ?size = "min (max num 1) 100"
  have m: "1 \<le> MaxPoolSize defaultPoolConfig" by (simp add: defaultPoolConfig_def)
  obtain fast p reg' where s: "SetGatherConfigByClientTimeout (wrap64 (timeOut * Second)) False True reg =
             (None, reg\<lparr>transportNoProxy := None, globalConfig := Some fast\<rparr>)"
    and b: "build_pool headers proxyURL timeOut lg num defaultPoolConfig
             (reg\<lparr>transportNoProxy := None, globalConfig := Some fast\<rparr>) = (Inr p, reg')"
    and n: "int (length (pool p)) = min (max num 1) (MaxPoolSize defaultPoolConfig)"
    and ok: "\<forall>g \<in> set (pool p).
              instance_ok fast
                (if pool_MaxIdleConns defaultPoolConfig = 0 then int (length (pool p))
                 else pool_MaxIdleConns defaultPoolConfig)
                (per_host_budget
                   (if pool_MaxIdleConns defaultPoolConfig = 0 then int (length (pool p))
                    else pool_MaxIdleConns defaultPoolConfig)
                   (MaxIdleConnsPerHostRatio defaultPoolConfig)) reg' g"
    using constructor_ok [OF assms m, of reg headers proxyURL lg num] by blast
  have run: "NewGatherUtilPool headers proxyURL timeOut lg num reg = (Inr p, reg')"
    using NewGatherUtilPool_unfold [OF s] b by simp
  have size: "int (length (pool p)) = ?size"
    using n by (simp add: defaultPoolConfig_def)
  have "0 < ?size" "?size < 2 ^ 51" by (auto simp add: min_def max_def)
  then have fifth: "int_of_float64 (float64_mul (float64_of_int ?size) ratio_0_2) = ?size div 5"
    by (rule per_host_default)
  have sized: "\<forall>g \<in> set (pool p). \<exists>t. transport_of reg' g = Some t \<and>
             tr_MaxIdleConns t = ?size \<and> tr_MaxIdleConnsPerHost t = max 1 (?size div 5)"
    using ok unfolding size fifth [symmetric]
    by (auto simp add: instance_ok_def sized_def per_host_budget_def defaultPoolConfig_def
          split: option.splits)
  show "\<exists>p reg' size.
            NewGatherUtilPool headers proxyURL timeOut lg num reg = (Inr p, reg') \<and>
            size = min (max num 1) 100 \<and>
            int (length (pool p)) = size \<and>
            (\<forall>g \<in> set (pool p). \<exists>t. transport_of reg' g = Some t \<and>
               tr_MaxIdleConns t = size \<and>
               tr_MaxIdleConnsPerHost t = max 1 (size div 5))"
    apply (rule exI [where x = p])
    apply (rule exI [where x = reg'])
    apply (rule exI [where x = ?size])
    apply (intro conjI run size sized refl)
    done
qed

text \<open>
  The theorem at a configuration with the maximum 50 and the ratio 0.4: a pool asked for
  with size 80 has 50 instances, and the transport of the first has \<open>MaxIdleConns\<close> 50
  and \<open>MaxIdleConnsPerHost\<close> 20. With the maximum 0 and the ratio - 0.4 the defaults
  apply: 100 instances, \<open>MaxIdleConnsPerHost\<close> 20. \<open>NewGatherUtilPool\<close> asked for size
  0 builds one instance, with \<open>MaxIdleConns\<close> 1 and \<open>MaxIdleConnsPerHost\<close> 1.
\<close>

theorem pool_construction_size_witness:
  "0 < wrap64 (5 * Second) \<and>
   (\<exists>p reg'. NewGatherUtilPoolWithConfig [] '''' 5 False 80
                \<lparr>pool_MaxIdleConns = 0, MaxIdleConnsPerHostRatio = ratio_0_4, TimeoutSecond = 30,
                  RetryIntervalMs = 100, MaxPoolSize = 50, IsUseSemaphore = True\<rparr> registry0
              = (Inr p, reg') \<and>
      length (pool p) = 50 \<and>
      (\<exists>t. transport_of reg' (pool p ! 0) = Some t \<and>
         tr_MaxIdleConns t = 50 \<and> tr_MaxIdleConnsPerHost t = 20)) \<and>
   (\<exists>p reg'. NewGatherUtilPoolWithConfig [] '''' 5 False 200
                \<lparr>pool_MaxIdleConns = 0, MaxIdleConnsPerHostRatio = Finite (- 3602879701896397) (- 53),
                  TimeoutSecond = 30, RetryIntervalMs = 100, MaxPoolSize = 0,
                  IsUseSemaphore = True\<rparr> registry0
              = (Inr p, reg') \<and>
      length (pool p) = 100 \<and>
      (\<exists>t. transport_of reg' (pool p ! 0) = Some t \<and>
         tr_MaxIdleConns t = 100 \<and> tr_MaxIdleConnsPerHost t = 20)) \<and>
   (\<exists>p reg'. NewGatherUtilPool [] '''' 5 False 0 registry0 = (Inr p, reg') \<and>
      length (pool p) = 1 \<and>
      (\<exists>t. transport_of reg' (pool p ! 0) = Some t \<and>
         tr_MaxIdleConns t = 1 \<and> tr_MaxIdleConnsPerHost t = 1))"
proof -
  let ?c1 = "\<lparr>pool_MaxIdleConns = 0, MaxIdleConnsPerHostRatio = ratio_0_4, TimeoutSecond = 30,
              RetryIntervalMs = 100, MaxPoolSize = 50, IsUseSemaphore = True\<rparr>"
  let ?c2 = "\<lparr>pool_MaxIdleConns = 0, MaxIdleConnsPerHostRatio = Finite (- 3602879701896397) (- 53),
              TimeoutSecond = 30, RetryIntervalMs = 100, MaxPoolSize = 0, IsUseSemaphore = True\<rparr>"
  have pos: "0 < wrap64 (5 * Second)" by (simp add: wrap64_def Second_def)
  have b1: "max 1 (int_of_float64 (float64_mul (float64_of_int 50) ratio_0_4)) = 20"
    by code_simp
  have b2: "max 1 (int_of_float64 (float64_mul (float64_of_int 100) ratio_0_2)) = 20"
    by code_simp
  have v1: "\<not> float64_le_zero ratio_0_4" "\<not> float64_gt_one ratio_0_4"
    by (simp_all add: ratio_0_4_def)
  obtain p1 r1 where run1: "NewGatherUtilPoolWithConfig [] '''' 5 False 80 ?c1 registry0 = (Inr p1, r1)"
    and n1: "int (length (pool p1)) = 50"
    and all1: "\<forall>g \<in> set (pool p1). \<exists>t. transport_of r1 g = Some t \<and>
               tr_MaxIdleConns t = 50 \<and> tr_MaxIdleConnsPerHost t = 20"
    using pool_construction_size [OF pos, of "[]" "''''" False 80 ?c1 registry0] v1 b1
    by auto
  obtain p2 r2 where run2: "NewGatherUtilPoolWithConfig [] '''' 5 False 200 ?c2 registry0 = (Inr p2, r2)"
    and n2: "int (length (pool p2)) = 100"
    and all2: "\<forall>g \<in> set (pool p2). \<exists>t. transport_of r2 g = Some t \<and>
               tr_MaxIdleConns t = 100 \<and> tr_MaxIdleConnsPerHost t = 20"
    using pool_construction_size [OF pos, of "[]" "''''" False 200 ?c2 registry0] b2
    by auto
  obtain p3 r3 where run3: "NewGatherUtilPool [] '''' 5 False 0 registry0 = (Inr p3, r3)"
    and n3: "int (length (pool p3)) = 1"
    and all3: "\<forall>g \<in> set (pool p3). \<exists>t. transport_of r3 g = Some t \<and>
               tr_MaxIdleConns t = 1 \<and> tr_MaxIdleConnsPerHost t = 1"
    using pool_construction_size [OF pos, of "[]" "''''" False 0 ?c1 registry0]
    by auto
  have "pool p1 ! 0 \<in> set (pool p1)" "pool p2 ! 0 \<in> set (pool p2)" "pool p3 ! 0 \<in> set (pool p3)"
    using n1 n2 n3 by simp_all
  then have "\<exists>t. transport_of r1 (pool p1 ! 0) = Some t \<and>
               tr_MaxIdleConns t = 50 \<and> tr_MaxIdleConnsPerHost t = 20"
    and "\<exists>t. transport_of r2 (pool p2 ! 0) = Some t \<and>
               tr_MaxIdleConns t = 100 \<and> tr_MaxIdleConnsPerHost t = 20"
    and "\<exists>t. transport_of r3 (pool p3 ! 0) = Some t \<and>
               tr_MaxIdleConns t = 1 \<and> tr_MaxIdleConnsPerHost t = 1"
    using all1 all2 all3 by blast+
  moreover have "length (pool p1) = 50" "length (pool p2) = 100" "length (pool p3) = 1"
    using n1 n2 n3 by simp_all
  ultimately show ?thesis using pos run1 run2 run3 by blast
qed

text \<open>
  Claim C10. Constructing a pool overwrites the global configuration with the fast
  profile derived from the pool's \<open>timeOut\<close> (the configuration
  \<open>SetGatherConfigByClientTimeout\<close> installs for that timeout in the fast mode with
  certificate checks off) and drops the cached transport without proxy: afterwards the
  cache is empty, or holds a transport that did not exist before and is built from the
  fast profile (the pool's own, when the pool uses no proxy). Every instance that
  \<open>NewGatherUtil\<close> creates afterwards has a transport with the settings of the fast
  profile. This holds for both constructors, whenever they return, which they do when
  \<open>timeOut\<close>, in nanoseconds, is a positive \<open>int64\<close>.
\<close>

theorem pool_construction_overwrites_profile:
  assumes "0 < wrap64 (timeOut * Second)"
  shows "\<exists>fast. SetGatherConfigByClientTimeout (wrap64 (timeOut * Second)) False True reg =
            (None, reg\<lparr>transportNoProxy := None, globalConfig := Some fast\<rparr>) \<and>
          (\<exists>p reg'. NewGatherUtilPool headers proxyURL timeOut lg num reg = (Inr p, reg') \<and>
             globalConfig reg' = Some fast \<and>
             (case transportNoProxy reg' of
                None \<Rightarrow> proxyURL \<noteq> ''''
              | Some a \<Rightarrow> proxyURL = '''' \<and> length (transports reg) \<le> a \<and>
                  a < length (transports reg') \<and> has_profile fast (transports reg' ! a)) \<and>
             (\<forall>hs px t' lg'. \<exists>g reg'' t. NewGatherUtil env hs px t' lg' reg' = (Inr g, reg'') \<and>
                transport_of reg'' g = Some t \<and> has_profile fast t)) \<and>
          (\<exists>p reg'. NewGatherUtilPoolWithConfig headers proxyURL timeOut lg num cfg reg = (Inr p, reg') \<and>
             globalConfig reg' = Some fast \<and>
             (case transportNoProxy reg' of
                None \<Rightarrow> proxyURL \<noteq> ''''
              | Some a \<Rightarrow> proxyURL = '''' \<and> length (transports reg) \<le> a \<and>
                  a < length (transports reg') \<and> has_profile fast (transports reg' ! a)) \<and>
             (\<forall>hs px t' lg'. \<exists>g reg'' t. NewGatherUtil env hs px t' lg' reg' = (Inr g, reg'') \<and>
                transport_of reg'' g = Some t \<and> has_profile fast t))"
proof -
  have after: "\<exists>p reg'. build_pool headers proxyURL timeOut lg num c
                 (reg\<lparr>transportNoProxy := None, globalConfig := Some fast\<rparr>) = (Inr p, reg') \<and>
             globalConfig reg' = Some fast \<and>
             (case transportNoProxy reg' of
                None \<Rightarrow> proxyURL \<noteq> ''''
              | Some a \<Rightarrow> proxyURL = '''' \<and> length (transports reg) \<le> a \<and>
                  a < length (transports reg') \<and> has_profile fast (transports reg' ! a)) \<and>
             (\<forall>hs px t' lg'. \<exists>g reg'' t. NewGatherUtil env hs px t' lg' reg' = (Inr g, reg'') \<and>
                transport_of reg'' g = Some t \<and> has_profile fast t)"
    if m: "1 \<le> MaxPoolSize c"
      and s: "SetGatherConfigByClientTimeout (wrap64 (timeOut * Second)) False True reg =
             (None, reg\<lparr>transportNoProxy := None, globalConfig := Some fast\<rparr>)"
    for c fast
  proof -
    obtain fast' p reg' where s': "SetGatherConfigByClientTimeout (wrap64 (timeOut * Second)) False True reg =
             (None, reg\<lparr>transportNoProxy := None, globalConfig := Some fast'\<rparr>)"
      and b: "build_pool headers proxyURL timeOut lg num c
             (reg\<lparr>transportNoProxy := None, globalConfig := Some fast'\<rparr>) = (Inr p, reg')"
      and c: "consistent fast' reg'" and f: "fresh_cache (length (transports reg)) reg'"
      and px: "proxyURL \<noteq> '''' \<longrightarrow> transportNoProxy reg' = None"
      and np: "proxyURL = '''' \<longrightarrow> transportNoProxy reg' \<noteq> None"
      using constructor_ok [OF assms m, of reg headers proxyURL lg num] by blast
    have "reg\<lparr>transportNoProxy := None, globalConfig := Some fast'\<rparr> =
          reg\<lparr>transportNoProxy := None, globalConfig := Some fast\<rparr>"
      using s s' by simp
    then have "globalConfig (reg\<lparr>transportNoProxy := None, globalConfig := Some fast'\<rparr>) =
          globalConfig (reg\<lparr>transportNoProxy := None, globalConfig := Some fast\<rparr>)"
      by (rule arg_cong)
    then have eq: "fast' = fast" by simp
    have g: "globalConfig reg' = Some fast"
      using c eq by (simp add: consistent_def)
    have cache: "case transportNoProxy reg' of
                None \<Rightarrow> proxyURL \<noteq> ''''
              | Some a \<Rightarrow> proxyURL = '''' \<and> length (transports reg) \<le> a \<and>
                  a < length (transports reg') \<and> has_profile fast (transports reg' ! a)"
      using c f px np eq
      by (auto simp add: consistent_def fresh_cache_def split: option.splits)
    have later: "\<forall>hs px t' lg'. \<exists>g reg'' t. NewGatherUtil env hs px t' lg' reg' = (Inr g, reg'') \<and>
                transport_of reg'' g = Some t \<and> has_profile fast t"
      using NewGatherUtil_consistent [OF c] eq by simp
    show ?thesis
      using b g cache later eq by blast
  qed
  obtain fast where s: "SetGatherConfigByClientTimeout (wrap64 (timeOut * Second)) False True reg =
             (None, reg\<lparr>transportNoProxy := None, globalConfig := Some fast\<rparr>)"
    using SetGatherConfigByClientTimeout_installs [OF assms] by blast
  have m1: "1 \<le> MaxPoolSize defaultPoolConfig" by (simp add: defaultPoolConfig_def)
  have m2: "1 \<le> MaxPoolSize (getValidatedConfig cfg)"
    using getValidatedConfig_fields [of cfg] by simp
  show ?thesis
    apply (rule exI [where x = fast])
    using s after [OF m1 s] after [OF m2 s]
      NewGatherUtilPool_unfold [OF s, of headers proxyURL lg num]
      NewGatherUtilPoolWithConfig_unfold [OF s, of headers proxyURL lg num cfg]
    by simp
qed

text \<open>
  The theorem at \<open>NewGatherUtilPool(headers, "", 10, false, 5)\<close>, constructed while
  the slow profile of the package's \<open>init\<close> is active: afterwards the active
  configuration has the response-header timeout of the fast profile, four seconds, where
  the slow profile had 0.
\<close>

theorem pool_construction_overwrites_profile_witness:
  "0 < wrap64 (10 * Second) \<and>
   Option.map_option ResponseHeaderTimeout (globalConfig registry1) = Some 0 \<and>
   (\<exists>p reg'. NewGatherUtilPool [] '''' 10 False 5 registry1 = (Inr p, reg') \<and>
      Option.map_option ResponseHeaderTimeout (globalConfig reg') = Some 4000000000)"
proof -
  have pos: "0 < wrap64 (10 * Second)" by (simp add: wrap64_def Second_def)
  have slow: "Option.map_option ResponseHeaderTimeout (globalConfig registry1) = Some 0"
    by (simp add: registry1_def UseSlowConnConfig_def SetGatherConfigByClientTimeout_def
          SetGatherConfig_def errMsgs_def Let_def Minute_def Second_def Millisecond_def)
  have w: "wrap64 10000000000 = 10000000000" by (simp add: wrap64_def)
  have sc: "scale_duration 10000000000 ratio_0_4 = 4000000000" by code_simp
  obtain fast p reg' where s: "SetGatherConfigByClientTimeout (wrap64 (10 * Second)) False True registry1 =
            (None, registry1\<lparr>transportNoProxy := None, globalConfig := Some fast\<rparr>)"
    and run: "NewGatherUtilPool [] '''' 10 False 5 registry1 = (Inr p, reg')"
    and g: "globalConfig reg' = Some fast"
    using pool_construction_overwrites_profile [OF pos, of registry1 "[]" "''''" False 5]
    by blast
  have "globalConfig (snd (SetGatherConfigByClientTimeout (wrap64 (10 * Second)) False True registry1)) =
          Some fast"
    using s by simp
  then have "ResponseHeaderTimeout fast = 4000000000"
    by (auto simp add: w sc SetGatherConfigByClientTimeout_def SetGatherConfig_def errMsgs_def
          Let_def Second_def Millisecond_def split: if_splits)
  then show ?thesis using pos slow run g by auto
qed

section \<open>Properties of the pool under concurrent callers\<close>

lemma filter_update_count:
  "t < length xs \<Longrightarrow>
     length (filter P (xs[t := y])) + (if P (xs ! t) then 1 else 0) =
     length (filter P xs) + (if P y then 1 else 0)"
proof (induction xs arbitrary: t)
  case Nil
  then show ?case by simp
next
  case (Cons x xs)
  then show ?case by (cases t) auto
qed

lemma distinct_below_length:
  assumes "distinct ks" and "list_all (\<lambda>k. k < N) ks"
  shows "length ks \<le> N"
proof -
  have "set ks \<subseteq> {..<N}"
    using assms(2) by (auto simp add: list_all_iff)
  then have "card (set ks) \<le> card {..<N}"
    by (intro card_mono) auto
  then show ?thesis
    using assms(1) by (simp add: distinct_card)
qed

text \<open>A step of a caller keeps it well-formed and leaves the configuration and the size.\<close>

lemma caller_step_wf:
  assumes "caller_step env a p c = Some (p', c')"
    and "wf_caller (config p) (length (pool p)) c"
  shows "wf_caller (config p) (length (pool p)) c' \<and> config p' = config p \<and>
         length (pool p') = length (pool p) \<and> call c' = call c"
proof (cases "pc c")
  case At_entry
  then show ?thesis using assms
    by (auto simp add: caller_step_def wf_caller_def split: if_splits)
next
  case At_select
  then show ?thesis using assms
    by (auto simp add: caller_step_def wf_caller_def searching_def sem_defers_def unwinding_def list_all_iff
          no_free_client_def split: if_splits action.splits option.splits prod.splits nat.splits)
next
  case At_getPoolIndex
  then show ?thesis using assms
    by (auto simp add: caller_step_def wf_caller_def searching_def sem_defers_def unwinding_def list_all_iff
          split: if_splits)
next
  case (At_loop num)
  then show ?thesis using assms
    by (auto simp add: caller_step_def wf_caller_def searching_def sem_defers_def unwinding_def list_all_iff
          distinct_below_length split: if_splits action.splits)
next
  case (In_range num ks)
  then show ?thesis using assms
    by (auto simp add: caller_step_def wf_caller_def searching_def split: if_splits list.splits)
next
  case (Found k)
  then show ?thesis using assms
    by (auto simp add: caller_step_def wf_caller_def searching_def split: if_splits)
next
  case (Got_index k)
  then show ?thesis using assms
    by (auto simp add: caller_step_def wf_caller_def split: if_splits)
next
  case (In_exchange k)
  then show ?thesis using assms
    by (auto simp add: caller_step_def wf_caller_def unwinding_def list_all_iff sem_defers_def
          split: if_splits prod.splits)
next
  case (Returning r)
  then show ?thesis using assms
    by (auto simp add: caller_step_def wf_caller_def unwinding_def list_all_iff sem_defers_def
          split: if_splits list.splits deferred.splits option.splits prod.splits)
next
  case (Done r)
  then show ?thesis using assms by (simp add: caller_step_def)
qed

text \<open>A step of a caller moves at most one token, to or from the caller.\<close>

lemma caller_step_sem:
  assumes "caller_step env a p c = Some (p', c')"
    and "wf_caller (config p) (length (pool p)) c"
  shows "case sem p of
           None \<Rightarrow> sem p' = None \<and> permit c' = permit c
         | Some (n, cap) \<Rightarrow>
             (\<exists>n'. sem p' = Some (n', cap) \<and>
                n' + (if permit c' then 1 else 0) = n + (if permit c then 1 else 0))"
proof (cases "pc c")
  case At_select
  then show ?thesis using assms
    by (auto simp add: caller_step_def wf_caller_def
          split: if_splits action.splits option.splits prod.splits nat.splits)
next
  case (At_loop num)
  then show ?thesis using assms
    by (auto simp add: caller_step_def split: if_splits action.splits option.splits)
next
  case (In_range num ks)
  then show ?thesis using assms
    by (auto simp add: caller_step_def split: if_splits list.splits option.splits)
next
  case (In_exchange k)
  then show ?thesis using assms
    by (auto simp add: caller_step_def split: if_splits prod.splits option.splits)
next
  case (Returning r)
  then show ?thesis using assms
    by (auto simp add: caller_step_def wf_caller_def unwinding_def
          split: if_splits list.splits deferred.splits option.splits prod.splits)
qed (use assms in \<open>auto simp add: caller_step_def split: if_splits option.splits\<close>)

text \<open>A step of a caller deletes an index it then leases, or frees the index it leased.\<close>

lemma caller_step_table:
  assumes "caller_step env a p c = Some (p', c')"
    and "wf_caller (config p) (length (pool p)) c"
  shows "(unUsed p' = unUsed p \<and> lease c' = lease c) \<or>
         (\<exists>k < length (pool p). unUsed p' = (unUsed p)(k := None) \<and> lease c = None \<and>
            lease c' = Some k) \<or>
         (\<exists>k < length (pool p). unUsed p' = (unUsed p)(k \<mapsto> True) \<and> lease c = Some k \<and>
            lease c' = None)"
proof (cases "pc c")
  case At_select
  then show ?thesis using assms
    by (auto simp add: caller_step_def
          split: if_splits action.splits option.splits prod.splits nat.splits)
next
  case (At_loop num)
  then show ?thesis using assms
    by (auto simp add: caller_step_def split: if_splits action.splits option.splits)
next
  case (In_range num ks)
  then show ?thesis using assms
    by (auto simp add: caller_step_def split: if_splits list.splits option.splits)
next
  case (Found k)
  then show ?thesis using assms
    by (auto simp add: caller_step_def wf_caller_def searching_def split: if_splits)
next
  case (In_exchange k)
  then show ?thesis using assms
    by (auto simp add: caller_step_def split: if_splits prod.splits option.splits)
next
  case (Returning r)
  then show ?thesis using assms
    by (auto simp add: caller_step_def wf_caller_def unwinding_def
          split: if_splits list.splits deferred.splits option.splits prod.splits)
qed (use assms in \<open>auto simp add: caller_step_def split: if_splits option.splits\<close>)

lemma table_step:
  assumes "table_ok w" and "t < length (callers w)"
    and "length (pool p') = length (pool (shared w))"
    and "(unUsed p' = unUsed (shared w) \<and> lease c' = lease (callers w ! t)) \<or>
         (\<exists>k < length (pool (shared w)). unUsed p' = (unUsed (shared w))(k := None) \<and>
            lease (callers w ! t) = None \<and> lease c' = Some k) \<or>
         (\<exists>k < length (pool (shared w)). unUsed p' = (unUsed (shared w))(k \<mapsto> True) \<and>
            lease (callers w ! t) = Some k \<and> lease c' = None)"
  shows "table_ok \<lparr>shared = p', callers = (callers w)[t := c']\<rparr>"
  unfolding table_ok_def
proof (intro allI)
  fix k
  let ?p = "shared w" and ?cs = "callers w"
  let ?w' = "\<lparr>shared = p', callers = ?cs[t := c']\<rparr>"
  have "\<forall>k. if k < length (pool ?p)
             then unUsed ?p k = Some True \<or> (\<exists>i < length ?cs. lease (?cs ! i) = Some k)
             else unUsed ?p k = None"
    using assms(1) by (simp only: table_ok_def)
  then have old: "if k < length (pool ?p)
             then unUsed ?p k = Some True \<or> (\<exists>i < length ?cs. lease (?cs ! i) = Some k)
             else unUsed ?p k = None"
    by (rule spec)
  show "if k < length (pool (shared ?w'))
        then unUsed (shared ?w') k = Some True \<or>
             (\<exists>i < length (callers ?w'). lease (callers ?w' ! i) = Some k)
        else unUsed (shared ?w') k = None"
  proof (cases "k < length (pool ?p)")
    case False
    then show ?thesis using old assms(3,4) by auto
  next
    case True
    show ?thesis
    proof (cases "unUsed p' k = Some True")
      case free: True
      then show ?thesis using assms(3) \<open>k < length (pool ?p)\<close> by simp
    next
      case False
      have "\<exists>i < length ?cs. lease ((?cs[t := c']) ! i) = Some k"
      proof (cases "lease c' = Some k")
        case True
        then show ?thesis using assms(2) by (intro exI [where x = t]) simp
      next
        case nc: False
        have "unUsed ?p k \<noteq> Some True"
          using False nc assms(4) by (auto split: if_splits)
        then obtain i where i: "i < length ?cs" and li: "lease (?cs ! i) = Some k"
          using old \<open>k < length (pool ?p)\<close> by auto
        have "i \<noteq> t"
          using li nc False assms(4) by (auto split: if_splits)
        then show ?thesis using i li by (intro exI [where x = i]) simp
      qed
      then show ?thesis using \<open>k < length (pool ?p)\<close> assms(3) by simp
    qed
  qed
qed

lemma list_all_update:
  "list_all P xs \<Longrightarrow> P y \<Longrightarrow> list_all P (xs[t := y])"
  by (induction xs arbitrary: t) (auto split: nat.splits)

text \<open>
  The invariant holds at the start and is kept by every step, hence by every run. The
  part about callers and permits does not depend on what the table holds.
\<close>

lemma world_ok_permits_ok: "world_ok w \<Longrightarrow> permits_ok w"
  by (simp add: world_ok_def permits_ok_def)

lemma start_permits_ok: "full_semaphore p \<Longrightarrow> permits_ok (start p calls)"
  by (auto simp add: permits_ok_def start_def full_semaphore_def sem_ok_def permits_def
        wf_caller_def list_all_iff filter_empty_conv)

lemma fresh_pool_full_semaphore: "fresh_pool p \<Longrightarrow> full_semaphore p"
  by (simp add: fresh_pool_def full_semaphore_def)

lemma start_ok: "fresh_pool p \<Longrightarrow> world_ok (start p calls)"
  by (auto simp add: world_ok_def start_def fresh_pool_def sem_ok_def permits_def wf_caller_def
        table_ok_def list_all_iff filter_empty_conv)

lemma step_cases:
  assumes "step env w ev = Some w'"
  obtains t a p' c' where "ev = (t, a)" and "t < length (callers w)"
    and "caller_step env a (shared w) (callers w ! t) = Some (p', c')"
    and "w' = \<lparr>shared = p', callers = (callers w)[t := c']\<rparr>"
  using assms by (cases ev) (auto simp add: step_def split: if_splits option.splits)

lemma step_permits_ok:
  assumes "step env w ev = Some w'" and "permits_ok w"
  shows "permits_ok w' \<and> config (shared w') = config (shared w) \<and>
         length (pool (shared w')) = length (pool (shared w)) \<and>
         length (callers w') = length (callers w)"
proof -
  from assms(1) obtain t a p' c' where ev: "ev = (t, a)" and t: "t < length (callers w)"
    and cs: "caller_step env a (shared w) (callers w ! t) = Some (p', c')"
    and w': "w' = \<lparr>shared = p', callers = (callers w)[t := c']\<rparr>"
    by (rule step_cases)
  let ?c = "callers w ! t"
  have all: "list_all (wf_caller (config (shared w)) (length (pool (shared w)))) (callers w)"
    and sem: "sem_ok w"
    using assms(2) by (simp_all add: permits_ok_def)
  have wfc: "wf_caller (config (shared w)) (length (pool (shared w))) ?c"
    using all t by (simp add: list_all_length)
  have keep: "wf_caller (config (shared w)) (length (pool (shared w))) c' \<and>
      config p' = config (shared w) \<and> length (pool p') = length (pool (shared w)) \<and>
      call c' = call ?c"
    using caller_step_wf [OF cs wfc] .
  have all': "list_all (wf_caller (config p') (length (pool p'))) ((callers w)[t := c'])"
    using keep all by (simp add: list_all_update)
  have cnt: "permits w' + (if permit ?c then 1 else 0) = permits w + (if permit c' then 1 else 0)"
    using filter_update_count [OF t, of permit c'] w' by (simp add: permits_def)
  have sem': "sem_ok w'"
  proof (cases "sem (shared w)")
    case None
    then have "sem p' = None \<and> permit c' = permit ?c"
      using caller_step_sem [OF cs wfc] by simp
    then show ?thesis
      using None sem keep w' by (simp add: sem_ok_def)
  next
    case (Some tok)
    obtain n cap where tok: "tok = (n, cap)" by (cases tok)
    then obtain n' where "sem p' = Some (n', cap)"
      and "n' + (if permit c' then 1 else 0) = n + (if permit ?c then 1 else 0)"
      using caller_step_sem [OF cs wfc] Some by auto
    then show ?thesis
      using Some tok sem keep w' cnt by (auto simp add: sem_ok_def split: if_splits)
  qed
  show ?thesis
    using all' sem' keep w' by (simp add: permits_ok_def)
qed

lemma step_ok:
  assumes "step env w ev = Some w'" and "world_ok w"
  shows "world_ok w' \<and> config (shared w') = config (shared w) \<and>
         length (pool (shared w')) = length (pool (shared w)) \<and>
         length (callers w') = length (callers w)"
proof -
  from assms(1) obtain t a p' c' where ev: "ev = (t, a)" and t: "t < length (callers w)"
    and cs: "caller_step env a (shared w) (callers w ! t) = Some (p', c')"
    and w': "w' = \<lparr>shared = p', callers = (callers w)[t := c']\<rparr>"
    by (rule step_cases)
  have wfc: "wf_caller (config (shared w)) (length (pool (shared w))) (callers w ! t)"
    and tab: "table_ok w"
    using assms(2) t by (simp_all add: world_ok_def list_all_length)
  have keep: "wf_caller (config (shared w)) (length (pool (shared w))) c' \<and>
      config p' = config (shared w) \<and> length (pool p') = length (pool (shared w)) \<and>
      call c' = call (callers w ! t)"
    using caller_step_wf [OF cs wfc] .
  have "table_ok w'"
    unfolding w' using tab t keep caller_step_table [OF cs wfc]
    by (intro table_step) simp_all
  then show ?thesis
    using step_permits_ok [OF assms(1) world_ok_permits_ok [OF assms(2)]]
    by (auto simp add: world_ok_def permits_ok_def)
qed

lemma run_permits_ok:
  "run env w evs = Some w' \<Longrightarrow> permits_ok w \<Longrightarrow>
     permits_ok w' \<and> config (shared w') = config (shared w) \<and>
     length (pool (shared w')) = length (pool (shared w)) \<and>
     length (callers w') = length (callers w)"
proof (induction evs arbitrary: w)
  case Nil
  then show ?case by simp
next
  case (Cons ev evs)
  then obtain w1 where s: "step env w ev = Some w1" and r: "run env w1 evs = Some w'"
    by (auto split: option.splits)
  from step_permits_ok [OF s Cons.prems(2)] Cons.IH [OF r] show ?case by simp
qed

lemma run_ok:
  "run env w evs = Some w' \<Longrightarrow> world_ok w \<Longrightarrow>
     world_ok w' \<and> config (shared w') = config (shared w) \<and>
     length (pool (shared w')) = length (pool (shared w)) \<and>
     length (callers w') = length (callers w)"
proof (induction evs arbitrary: w)
  case Nil
  then show ?case by simp
next
  case (Cons ev evs)
  then obtain w1 where s: "step env w ev = Some w1" and r: "run env w1 evs = Some w'"
    by (auto split: option.splits)
  from step_ok [OF s Cons.prems(2)] Cons.IH [OF r] show ?case by simp
qed

text \<open>
  What the invariant gives. A caller that has returned holds nothing: its deferred calls
  have all run, so the index it leased is marked free again and its permit is back in
  the channel. In semaphore mode a caller that holds a leased instance holds a permit,
  and there are never more permits out than the pool has instances.
\<close>

lemma done_holds_nothing:
  assumes "permits_ok w" and "t < length (callers w)" and "pc (callers w ! t) = Done r"
  shows "defers (callers w ! t) = [] \<and> \<not> permit (callers w ! t) \<and> lease (callers w ! t) = None"
proof -
  have "wf_caller (config (shared w)) (length (pool (shared w))) (callers w ! t)"
    using assms(1,2) by (simp add: permits_ok_def list_all_length)
  then show ?thesis using assms(3) by (simp add: wf_caller_def)
qed

lemma lease_needs_permit:
  assumes "wf_caller cfg N c" and "IsUseSemaphore cfg" and "lease c \<noteq> None"
  shows "permit c"
  using assms
  by (cases "pc c")
     (auto simp add: wf_caller_def searching_def unwinding_def sem_defers_def
        split: list.splits deferred.splits)

lemma filter_length_mono:
  "(\<And>x. x \<in> set xs \<Longrightarrow> P x \<Longrightarrow> Q x) \<Longrightarrow> length (filter P xs) \<le> length (filter Q xs)"
  by (induction xs) auto

lemma semaphore_bounds_holders:
  assumes "permits_ok w" and "IsUseSemaphore (config (shared w))"
  shows "holders w \<le> permits w \<and> permits w \<le> length (pool (shared w))"
proof -
  have all: "list_all (wf_caller (config (shared w)) (length (pool (shared w)))) (callers w)"
    and sem: "sem_ok w"
    using assms(1) by (simp_all add: permits_ok_def)
  have "holders w \<le> permits w"
    unfolding holders_def permits_def
  proof (rule filter_length_mono)
    fix c assume "c \<in> set (callers w)" and "lease c \<noteq> None"
    then show "permit c"
      using all assms(2) lease_needs_permit by (auto simp add: list_all_iff)
  qed
  moreover have "permits w \<le> length (pool (shared w))"
    using sem assms(2) by (auto simp add: sem_ok_def split: option.splits)
  ultimately show ?thesis by simp
qed

text \<open>
  When every caller has returned the pool is as the constructor left it: every index is
  marked free and the semaphore is full.
\<close>

lemma quiescent_pool_restored:
  assumes "world_ok w" and "list_all is_Done (callers w)"
  shows "fresh_pool (shared w)"
proof -
  have all: "list_all (wf_caller (config (shared w)) (length (pool (shared w)))) (callers w)"
    and sem: "sem_ok w" and tab: "table_ok w"
    using assms(1) by (simp_all add: world_ok_def)
  have idle: "\<not> permit c \<and> lease c = None" if "c \<in> set (callers w)" for c
  proof -
    have "wf_caller (config (shared w)) (length (pool (shared w))) c" and "is_Done c"
      using that all assms(2) by (simp_all add: list_all_iff)
    then show ?thesis
      by (cases "pc c") (simp_all add: wf_caller_def is_Done_def)
  qed
  have "permits w = 0"
    using idle by (simp add: permits_def filter_empty_conv)
  then have s: "sem (shared w) =
      (if IsUseSemaphore (config (shared w))
       then Some (length (pool (shared w)), length (pool (shared w))) else None)"
    using sem by (auto simp add: sem_ok_def split: option.splits)
  have "unUsed (shared w) k = (if k < length (pool (shared w)) then Some True else None)" for k
  proof -
    have "\<forall>k. if k < length (pool (shared w))
          then unUsed (shared w) k = Some True \<or>
               (\<exists>i < length (callers w). lease (callers w ! i) = Some k)
          else unUsed (shared w) k = None"
      using tab by (simp only: table_ok_def)
    then have "if k < length (pool (shared w))
          then unUsed (shared w) k = Some True \<or>
               (\<exists>i < length (callers w). lease (callers w ! i) = Some k)
          else unUsed (shared w) k = None"
      by (rule spec)
    moreover have "lease (callers w ! i) = None" if "i < length (callers w)" for i
      using idle that by simp
    ultimately show ?thesis by (auto split: if_splits)
  qed
  then have "unUsed (shared w) = (\<lambda>k. if k < length (pool (shared w)) then Some True else None)"
    by (rule ext)
  then show ?thesis using s by (simp add: fresh_pool_def)
qed

text \<open>
  A caller that has not had an index stays so until it finds a flag true; when it
  returns in that state, it returns the sentinel error with empty strings.
\<close>

lemma caller_step_empty_handed:
  assumes "caller_step env a p c = Some (p', c')" and "empty_handed c"
    and "RetryIntervalMs (config p) \<noteq> 0"
  shows "empty_handed c' \<or> at_Found c'"
proof (cases "pc c")
  case At_select
  then show ?thesis using assms
    by (auto simp add: caller_step_def empty_handed_def
          split: if_splits action.splits option.splits prod.splits nat.splits)
next
  case (At_loop num)
  then show ?thesis using assms
    by (auto simp add: caller_step_def empty_handed_def split: if_splits action.splits)
next
  case (In_range num ks)
  then show ?thesis using assms
    by (auto simp add: caller_step_def empty_handed_def at_Found_def split: if_splits list.splits)
next
  case (Returning r)
  then show ?thesis using assms
    by (auto simp add: caller_step_def empty_handed_def
          split: if_splits list.splits deferred.splits option.splits prod.splits)
qed (use assms in \<open>auto simp add: caller_step_def empty_handed_def split: if_splits\<close>)

lemma never_found_head: "never_found env t w evs \<Longrightarrow> \<not> at_Found (callers w ! t)"
  by (cases evs) simp_all

lemma run_empty_handed:
  "run env w evs = Some w' \<Longrightarrow> permits_ok w \<Longrightarrow> RetryIntervalMs (config (shared w)) \<noteq> 0 \<Longrightarrow>
     t < length (callers w) \<Longrightarrow> empty_handed (callers w ! t) \<Longrightarrow> never_found env t w evs \<Longrightarrow>
     empty_handed (callers w' ! t)"
proof (induction evs arbitrary: w)
  case Nil
  then show ?case by simp
next
  case (Cons ev evs)
  from Cons.prems(1) obtain w1 where s: "step env w ev = Some w1" and r: "run env w1 evs = Some w'"
    by (auto split: option.splits)
  from Cons.prems(6) s have nf: "never_found env t w1 evs" by simp
  have ok1: "permits_ok w1" and cfg1: "config (shared w1) = config (shared w)"
    and len1: "length (callers w1) = length (callers w)"
    using step_permits_ok [OF s Cons.prems(2)] by simp_all
  from s obtain t' a p' c' where ev: "ev = (t', a)" and t': "t' < length (callers w)"
    and cs: "caller_step env a (shared w) (callers w ! t') = Some (p', c')"
    and w1: "w1 = \<lparr>shared = p', callers = (callers w)[t' := c']\<rparr>"
    by (rule step_cases)
  have "empty_handed (callers w1 ! t)"
  proof (cases "t' = t")
    case True
    then have "empty_handed c' \<or> at_Found c'"
      using caller_step_empty_handed [OF cs] Cons.prems(3,5) by simp
    moreover have "callers w1 ! t = c'"
      using True w1 Cons.prems(4) by simp
    ultimately show ?thesis
      using never_found_head [OF nf] by auto
  next
    case False
    then show ?thesis using w1 Cons.prems(5) by simp
  qed
  then show ?case
    using Cons.IH [OF r ok1 _ _ _ nf] cfg1 len1 Cons.prems(3,4) by simp
qed

text \<open>
  No caller is ever stuck: as long as it has not returned, some step of it is enabled
  (the timeout may fire at every \<open>select\<close>, and its deferred send finds room in the
  channel).
\<close>

lemma permit_counted: "t < length cs \<Longrightarrow> permit (cs ! t) \<Longrightarrow> 1 \<le> length (filter permit cs)"
  by (induction cs arbitrary: t) (auto split: nat.splits simp add: less_Suc_eq_0_disj)

lemma caller_can_step:
  assumes "permits_ok w" and "t < length (callers w)" and "\<not> is_Done (callers w ! t)"
  shows "\<exists>a w'. step env w (t, a) = Some w'"
proof -
  let ?c = "callers w ! t" and ?p = "shared w"
  have wfc: "wf_caller (config ?p) (length (pool ?p)) ?c" and sem: "sem_ok w"
    using assms(1,2) by (simp_all add: permits_ok_def list_all_length)
  have "\<exists>a r. caller_step env a ?p ?c = Some r"
  proof (cases "pc ?c")
    case At_entry
    then show ?thesis by (intro exI [where x = Proceed]) (simp add: caller_step_def)
  next
    case At_select
    then show ?thesis
      by (cases "IsUseSemaphore (config ?p)")
         (auto simp add: caller_step_def intro: exI [where x = Ctx_done] exI [where x = Proceed])
  next
    case At_getPoolIndex
    then show ?thesis by (intro exI [where x = Proceed]) (simp add: caller_step_def)
  next
    case (At_loop num)
    then show ?thesis
      by (cases "int num < maxRetry (config ?p)")
         (auto simp add: caller_step_def intro: exI [where x = Ctx_done] exI [where x = Proceed])
  next
    case (In_range num ks)
    then show ?thesis
      by (intro exI [where x = Proceed]) (simp add: caller_step_def split: list.splits)
  next
    case (Found k)
    then show ?thesis by (intro exI [where x = Proceed]) (simp add: caller_step_def)
  next
    case (Got_index k)
    then show ?thesis by (intro exI [where x = Proceed]) (simp add: caller_step_def)
  next
    case (In_exchange k)
    then show ?thesis
      by (intro exI [where x = Proceed]) (simp add: caller_step_def split: prod.splits)
  next
    case (Returning r)
    show ?thesis
    proof (cases "defers ?c")
      case Nil
      then show ?thesis using Returning
        by (intro exI [where x = Proceed]) (simp add: caller_step_def)
    next
      case (Cons d ds)
      show ?thesis
      proof (cases d)
        case Cancel
        then show ?thesis using Returning Cons
          by (intro exI [where x = Proceed]) (simp add: caller_step_def)
      next
        case (Store_free k)
        then show ?thesis using Returning Cons
          by (intro exI [where x = Proceed]) (simp add: caller_step_def)
      next
        case Sem_release
        then have "permit ?c" and "IsUseSemaphore (config ?p)"
          using wfc Returning Cons
          by (auto simp add: wf_caller_def unwinding_def sem_defers_def split: if_splits)
        then have "1 \<le> permits w"
          using permit_counted [OF assms(2)] by (simp add: permits_def)
        then obtain n cap where "sem ?p = Some (n, cap)" and "n < cap"
          using sem \<open>IsUseSemaphore (config ?p)\<close>
          by (auto simp add: sem_ok_def split: option.splits)
        then show ?thesis using Returning Cons Sem_release
          by (intro exI [where x = Proceed]) (simp add: caller_step_def)
      qed
    qed
  next
    case (Done r)
    then show ?thesis using assms(3) by (simp add: is_Done_def)
  qed
  then obtain a p' c' where "caller_step env a ?p ?c = Some (p', c')" by auto
  then have "step env w (t, a) = Some \<lparr>shared = p', callers = (callers w)[t := c']\<rparr>"
    using assms(2) by (simp add: step_def)
  then show ?thesis by blast
qed

text \<open>
  Every step of a caller uses up some of its budget, so a caller takes no more steps
  than the budget it starts with: an exchange operation returns.
\<close>

lemma retry_budget: "num < R \<Longrightarrow> (R - num) * W = (R - Suc num) * W + (W::nat)"
  by (metis Suc_diff_Suc add.commute mult_Suc)

lemma enter_range:
  assumes "num < R" and "l \<le> N"
  shows "9 + (R - Suc num) * (N + 2) + l < 8 + (R - num) * (N + 2)"
proof -
  have "(R - num) * (N + 2) = (R - Suc num) * (N + 2) + (N + 2)"
    using assms(1) by (rule retry_budget)
  then show ?thesis using assms(2) by linarith
qed

lemma caller_step_budget:
  assumes "caller_step env a p c = Some (p', c')"
    and "wf_caller (config p) (length (pool p)) c"
  shows "budget (config p) (length (pool p)) c' < budget (config p) (length (pool p)) c"
proof (cases "pc c")
  case At_select
  then show ?thesis using assms
    by (auto simp add: caller_step_def budget_def wf_caller_def
          split: if_splits action.splits option.splits prod.splits nat.splits)
next
  case (At_loop num)
  show ?thesis
  proof (cases "int num < maxRetry (config p)")
    case True
    then have lt: "num < nat (maxRetry (config p))" by simp
    from assms(1) At_loop True
    consider ks where "distinct ks" and "list_all (\<lambda>k. k < length (pool p)) ks"
        and "c' = c\<lparr>pc := In_range num ks\<rparr>"
      | "c' = c\<lparr>pc := Returning no_free_client\<rparr>"
      by (auto simp add: caller_step_def split: if_splits action.splits)
    then show ?thesis
    proof cases
      case 1
      then have "length ks \<le> length (pool p)"
        using distinct_below_length [of ks "length (pool p)"] by (simp add: list_all_iff)
      then have "9 + (nat (maxRetry (config p)) - Suc num) * (length (pool p) + 2) + length ks
          < 8 + (nat (maxRetry (config p)) - num) * (length (pool p) + 2)"
        by (rule enter_range [OF lt])
      moreover have "budget (config p) (length (pool p)) c =
          8 + (nat (maxRetry (config p)) - num) * (length (pool p) + 2)"
        using At_loop by (simp add: budget_def)
      moreover have "budget (config p) (length (pool p)) c' =
          9 + (nat (maxRetry (config p)) - Suc num) * (length (pool p) + 2) + length ks"
        using 1 by (simp add: budget_def)
      ultimately show ?thesis by (simp only:)
    next
      case 2
      have "length (defers c) \<le> 2"
        using assms(2) At_loop by (simp add: wf_caller_def searching_def sem_defers_def)
      then show ?thesis using 2 At_loop by (simp add: budget_def)
    qed
  next
    case False
    then show ?thesis using assms At_loop
      by (auto simp add: caller_step_def budget_def wf_caller_def searching_def sem_defers_def
            split: if_splits action.splits)
  qed
next
  case (In_range num ks)
  then show ?thesis using assms
    by (auto simp add: caller_step_def budget_def wf_caller_def split: if_splits list.splits)
next
  case (Returning r)
  then show ?thesis using assms
    by (auto simp add: caller_step_def budget_def
          split: if_splits list.splits deferred.splits option.splits prod.splits)
next
  case (In_exchange k)
  then show ?thesis using assms
    by (auto simp add: caller_step_def budget_def wf_caller_def sem_defers_def
          split: if_splits prod.splits)
qed (use assms in \<open>auto simp add: caller_step_def budget_def wf_caller_def searching_def
      sem_defers_def split: if_splits\<close>)

lemma run_budget:
  "run env w evs = Some w' \<Longrightarrow> permits_ok w \<Longrightarrow> t < length (callers w) \<Longrightarrow>
     length (filter (\<lambda>ev. fst ev = t) evs) +
       budget (config (shared w)) (length (pool (shared w))) (callers w' ! t)
     \<le> budget (config (shared w)) (length (pool (shared w))) (callers w ! t)"
proof (induction evs arbitrary: w)
  case Nil
  then show ?case by simp
next
  case (Cons ev evs)
  from Cons.prems(1) obtain w1 where s: "step env w ev = Some w1" and r: "run env w1 evs = Some w'"
    by (auto split: option.splits)
  have ok1: "permits_ok w1" and cfg1: "config (shared w1) = config (shared w)"
    and len1: "length (callers w1) = length (callers w)"
    and size1: "length (pool (shared w1)) = length (pool (shared w))"
    using step_permits_ok [OF s Cons.prems(2)] by simp_all
  let ?b = "budget (config (shared w)) (length (pool (shared w)))"
  from Cons.IH [OF r ok1] Cons.prems(3) len1 cfg1 size1
  have ih: "length (filter (\<lambda>ev. fst ev = t) evs) + ?b (callers w' ! t) \<le> ?b (callers w1 ! t)"
    by simp
  from s obtain t' a p' c' where ev: "ev = (t', a)" and t': "t' < length (callers w)"
    and cs: "caller_step env a (shared w) (callers w ! t') = Some (p', c')"
    and w1: "w1 = \<lparr>shared = p', callers = (callers w)[t' := c']\<rparr>"
    by (rule step_cases)
  show ?case
  proof (cases "t' = t")
    case True
    have "wf_caller (config (shared w)) (length (pool (shared w))) (callers w ! t)"
      using Cons.prems(2,3) by (simp add: permits_ok_def list_all_length)
    then have "?b c' < ?b (callers w ! t)"
      using caller_step_budget [OF cs] True by simp
    moreover have "callers w1 ! t = c'" using True w1 Cons.prems(3) by simp
    ultimately show ?thesis using ih ev True by simp
  next
    case False
    then have "callers w1 ! t = callers w ! t" using w1 by simp
    then show ?thesis using ih ev False by simp
  qed
qed

text \<open>
  The pools the constructors return are fresh, and their retry interval is not zero
  (\<open>getValidatedConfig\<close> replaces an interval outside 10..1000 by the default 100).
\<close>

lemma build_instances_length:
  "build_instances n headers proxyURL timeOut lg m cfg reg = (Inr gas, reg') \<Longrightarrow> length gas = n"
  by (induction n arbitrary: reg gas)
     (auto split: prod.splits sum.splits)

lemma build_pool_fresh:
  assumes "build_pool headers proxyURL timeOut lg num cfg reg = (Inr p, reg')"
  shows "fresh_pool p \<and> config p = cfg"
  using assms build_instances_length
  by (fastforce simp add: build_pool_def Let_def fresh_pool_def split: if_splits prod.splits sum.splits)

lemma getValidatedConfig_interval:
  "10 \<le> RetryIntervalMs (getValidatedConfig cfg) \<and> RetryIntervalMs (getValidatedConfig cfg) \<le> 1000"
  by (simp add: getValidatedConfig_def Let_def defaultPoolConfig_def)

lemma NewGatherUtilPool_fresh:
  assumes "NewGatherUtilPool headers proxyURL timeOut lg num reg = (Inr p, reg')"
  shows "fresh_pool p \<and> RetryIntervalMs (config p) \<noteq> 0"
proof -
  from assms obtain reg1 where
    "build_pool headers proxyURL timeOut lg num defaultPoolConfig reg1 = (Inr p, reg')"
    by (auto simp add: NewGatherUtilPool_def split: prod.splits option.splits)
  then have "fresh_pool p \<and> config p = defaultPoolConfig" by (rule build_pool_fresh)
  then show ?thesis by (simp add: defaultPoolConfig_def)
qed

lemma NewGatherUtilPoolWithConfig_fresh:
  assumes "NewGatherUtilPoolWithConfig headers proxyURL timeOut lg num cfg reg = (Inr p, reg')"
  shows "fresh_pool p \<and> RetryIntervalMs (config p) \<noteq> 0"
proof -
  from assms obtain reg1 where
    "build_pool headers proxyURL timeOut lg num (getValidatedConfig cfg) reg1 = (Inr p, reg')"
    by (auto simp add: NewGatherUtilPoolWithConfig_def split: prod.splits option.splits)
  then have "fresh_pool p \<and> config p = getValidatedConfig cfg" by (rule build_pool_fresh)
  then show ?thesis using getValidatedConfig_interval [of cfg] by auto
qed

text \<open>
  Release on every return path, and the bound in semaphore mode: after any run of any
  schedule of calls on a fresh pool, a caller that has returned (with a result, an error
  or a panic) holds neither a leased index nor a permit; once all have returned, the
  table and the semaphore are as the constructor left them; and with the semaphore on,
  the callers holding a leased instance are never more than the instances of the pool.
\<close>

lemma pool_exchange_releases:
  assumes "fresh_pool p" and "run env (start p calls) evs = Some w"
  shows "length (pool (shared w)) = length (pool p)"
    and "t < length calls \<Longrightarrow> is_Done (callers w ! t) \<Longrightarrow>
           \<not> permit (callers w ! t) \<and> lease (callers w ! t) = None"
    and "list_all is_Done (callers w) \<Longrightarrow> fresh_pool (shared w)"
    and "IsUseSemaphore (config p) \<Longrightarrow> holders w \<le> length (pool p)"
proof -
  have ok: "world_ok w" and cfg: "config (shared w) = config p"
    and size: "length (pool (shared w)) = length (pool p)"
    and len: "length (callers w) = length calls"
    using run_ok [OF assms(2) start_ok [OF assms(1)]] by (simp_all add: start_def)
  show "length (pool (shared w)) = length (pool p)" by (rule size)
  show "\<not> permit (callers w ! t) \<and> lease (callers w ! t) = None"
    if "t < length calls" and "is_Done (callers w ! t)"
  proof -
    from that(2) obtain r where "pc (callers w ! t) = Done r"
      by (cases "pc (callers w ! t)") (simp_all add: is_Done_def)
    then show ?thesis
      using done_holds_nothing [OF world_ok_permits_ok [OF ok]] that(1) len by simp
  qed
  show "fresh_pool (shared w)" if "list_all is_Done (callers w)"
    using ok that by (rule quiescent_pool_restored)
  show "holders w \<le> length (pool p)" if "IsUseSemaphore (config p)"
    using semaphore_bounds_holders [OF world_ok_permits_ok [OF ok]] that cfg size by simp
qed

text \<open>
  Claim C1. Every exchange operation of the pool releases what it acquired on every
  return path, and at no point do more than N callers hold a leased instance, N being
  the size of the pool. The first part holds, and so does the bound when the semaphore
  is on (\<open>pool_exchange_releases\<close>). With the semaphore off the bound fails:
  \<open>getPoolIndex\<close> reads the flag of an index in the callback of \<open>Range\<close> and deletes
  the index in a second operation, so two callers can both read the flag of the same
  index before either deletes it. On a fresh pool of one instance the schedule
  \<open>racing_schedule\<close> of two calls of \<open>Get\<close> leads to a state in which both callers
  hold index 0 and stand before their exchange on the same instance: two holders in a
  pool of size one.
\<close>

theorem polling_pool_double_lease:
  "fresh_pool polling_pool \<and>
   map_option (\<lambda>w. (holders w, length (pool (shared w)), map pc (callers w), map lease (callers w)))
     (run offline_env (start polling_pool [Call_Get ''http://a/'' '''', Call_Get ''http://a/'' ''''])
        racing_schedule)
   = Some (2, 1, [In_exchange 0, In_exchange 0], [Some 0, Some 0])"
proof -
  have "fresh_pool polling_pool"
    by (simp add: fresh_pool_def polling_pool_def)
  moreover have "map_option
       (\<lambda>w. (holders w, length (pool (shared w)), map pc (callers w), map lease (callers w)))
       (run offline_env (start polling_pool [Call_Get ''http://a/'' '''', Call_Get ''http://a/'' ''''])
          racing_schedule)
     = Some (2, 1, [In_exchange 0, In_exchange 0], [Some 0, Some 0])"
    by code_simp
  ultimately show ?thesis by simp
qed

text \<open>
  Claim C3. If no instance of the pool becomes free within the acquisition timeout,
  every exchange operation returns the sentinel error \<open>errNoFreeClinetFind\<close> with an
  empty html and an empty redirect URL. Take any calls (of \<open>Get\<close>, \<open>GetUtil\<close>,
  \<open>Post\<close>, \<open>PostUtil\<close>) on a pool whose semaphore is as the constructor left it,
  whatever its table holds, and any schedule, and let caller \<open>t\<close> never find the flag
  of an index true. Then if the caller has returned, it has returned
  \<open>("", "", errNoFreeClinetFind)\<close>, a value of its own among the errors; if it has
  not, it is not stuck, some step of it is enabled; and it returns within a bounded
  number of steps of its own: the loop of \<open>getPoolIndex\<close> runs at most
  \<open>TimeoutSecond * 1000 / RetryIntervalMs\<close> times when the timeout of the context
  does not fire before.
\<close>

theorem acquisition_timeout_sentinel:
  assumes "full_semaphore p" and "RetryIntervalMs (config p) \<noteq> 0" and "t < length calls"
    and "run env (start p calls) evs = Some w"
    and "never_found env t (start p calls) evs"
  shows "(\<forall>r. pc (callers w ! t) = Done r \<longrightarrow> r = Inr ('''', '''', Some errNoFreeClinetFind)) \<and>
         (\<not> is_Done (callers w ! t) \<longrightarrow> (\<exists>a w'. step env w (t, a) = Some w')) \<and>
         length (filter (\<lambda>ev. fst ev = t) evs)
           \<le> 11 + nat (maxRetry (config p)) * (length (pool p) + 2)"
proof -
  let ?w0 = "start p calls"
  have ok0: "permits_ok ?w0" using assms(1) by (rule start_permits_ok)
  have t0: "t < length (callers ?w0)" using assms(3) by (simp add: start_def)
  have ok: "permits_ok w" and len: "length (callers w) = length (callers ?w0)"
    using run_permits_ok [OF assms(4) ok0] by simp_all
  have "empty_handed (callers ?w0 ! t)"
    using assms(3) by (simp add: start_def empty_handed_def)
  then have "empty_handed (callers w ! t)"
    using run_empty_handed [OF assms(4) ok0 _ t0 _ assms(5)] assms(2) by (simp add: start_def)
  then have 1: "\<forall>r. pc (callers w ! t) = Done r \<longrightarrow> r = Inr ('''', '''', Some errNoFreeClinetFind)"
    by (auto simp add: empty_handed_def no_free_client_def)
  have 2: "\<not> is_Done (callers w ! t) \<longrightarrow> (\<exists>a w'. step env w (t, a) = Some w')"
    using caller_can_step [OF ok] t0 len by simp
  have "length (filter (\<lambda>ev. fst ev = t) evs) +
          budget (config (shared ?w0)) (length (pool (shared ?w0))) (callers w ! t)
        \<le> budget (config (shared ?w0)) (length (pool (shared ?w0))) (callers ?w0 ! t)"
    using assms(4) ok0 t0 by (rule run_budget)
  moreover have "budget (config (shared ?w0)) (length (pool (shared ?w0))) (callers ?w0 ! t) =
      11 + nat (maxRetry (config p)) * (length (pool p) + 2)"
    using assms(3) by (simp add: start_def budget_def)
  ultimately have 3: "length (filter (\<lambda>ev. fst ev = t) evs)
      \<le> 11 + nat (maxRetry (config p)) * (length (pool p) + 2)"
    by linarith
  from 1 2 3 show ?thesis by (intro conjI)
qed

theorem acquisition_timeout_sentinel_witness:
  "full_semaphore single_pool \<and> RetryIntervalMs (config single_pool) \<noteq> 0 \<and>
   (\<exists>w. run offline_env (start single_pool [Call_Get ''http://a/'' '''', Call_Get ''http://a/'' ''''])
           starving_schedule = Some w \<and>
        never_found offline_env 1 (start single_pool [Call_Get ''http://a/'' '''', Call_Get ''http://a/'' ''''])
           starving_schedule \<and>
        lease (callers w ! 0) = Some 0 \<and>
        pc (callers w ! 1) = Done (Inr ('''', '''', Some errNoFreeClinetFind)))"
proof -
  let ?calls = "[Call_Get ''http://a/'' '''', Call_Get ''http://a/'' '''']"
  have full: "full_semaphore single_pool"
    by (simp add: full_semaphore_def single_pool_def defaultPoolConfig_def)
  have interval: "RetryIntervalMs (config single_pool) \<noteq> 0"
    by (simp add: single_pool_def defaultPoolConfig_def)
  have "map_option (\<lambda>w. (lease (callers w ! 0), is_Done (callers w ! 1)))
          (run offline_env (start single_pool ?calls) starving_schedule) = Some (Some 0, True)"
    by code_simp
  then obtain w where r: "run offline_env (start single_pool ?calls) starving_schedule = Some w"
    and held: "lease (callers w ! 0) = Some 0" and d: "is_Done (callers w ! 1)"
    by auto
  have nf: "never_found offline_env 1 (start single_pool ?calls) starving_schedule"
    by code_simp
  from d obtain x where x: "pc (callers w ! 1) = Done x"
    by (cases "pc (callers w ! 1)") (simp_all add: is_Done_def)
  have "x = Inr ('''', '''', Some errNoFreeClinetFind)"
    using acquisition_timeout_sentinel [OF full interval _ r nf] x by simp
  then show ?thesis using full interval r nf held x by simp
qed

end
